theory Spec2Isabelle
  imports Complex_Main "HOL-Library.AList"
begin

section \<open>Values of the JavaScript runtime\<close>

text \<open>
  The server (\<^verbatim>\<open>src/server.js\<close>) moves documents between a MongoDB collection and a
  Redis cache. An \<^verbatim>\<open>ObjectId\<close> is represented by its 24-digit lower-case hexadecimal
  text, which is what \<^verbatim>\<open>toString()\<close> returns. The numbers inside documents are integers
  here. A document is an object, its fields kept in the order in which they were written
  (the engine's rule that lists integer-like keys first is left out).
\<close>

datatype objectid = ObjectId string

datatype jsval =
    JNull
  | JBool bool
  | JNum int
  | JStr string
  | JOid objectid
  | JArr "jsval list"
  | JObj "(string \<times> jsval) list"

type_synonym document = "(string \<times> jsval) list"

text \<open>The truthiness test behind \<^verbatim>\<open>!!data\<close>, \<^verbatim>\<open>if (!data)\<close> and \<^verbatim>\<open>if (data)\<close>.\<close>

fun truthy :: "jsval \<Rightarrow> bool" where
  "truthy JNull = False"
| "truthy (JBool b) = b"
| "truthy (JNum n) = (n \<noteq> 0)"
| "truthy (JStr s) = (s \<noteq> [])"
| "truthy (JOid x) = True"
| "truthy (JArr xs) = True"
| "truthy (JObj fs) = True"

datatype error = Error (message: string)

text \<open>
  The value of \<^verbatim>\<open>Number(...)\<close> on a string of the environment: not a number, infinite,
  or a finite number, which need not be whole.
\<close>

datatype number = NaN | Infinity | Finite rat

text \<open>The truthiness of a number: \<^verbatim>\<open>if (ttlSec)\<close> fails for 0 and for NaN.\<close>

fun nonzero :: "number \<Rightarrow> bool" where
  "nonzero NaN = False"
| "nonzero Infinity = True"
| "nonzero (Finite q) = (q \<noteq> 0)"

text \<open>
  The functions of the platform that the server calls but does not define:
  \<^verbatim>\<open>JSON.parse\<close> (\<open>Inl\<close> the SyntaxError it throws), \<^verbatim>\<open>JSON.stringify\<close>, and
  \<^verbatim>\<open>toString()\<close> on an identifier that is not an ObjectId.
\<close>

record platform =
  JSON_parse :: "string \<Rightarrow> error + jsval"
  JSON_stringify :: "jsval \<Rightarrow> string"
  toString :: "jsval \<Rightarrow> string"

fun oid_toString :: "objectid \<Rightarrow> string" where
  "oid_toString (ObjectId h) = h"

definition id_toString :: "platform \<Rightarrow> jsval \<Rightarrow> string" where
  "id_toString P v = (case v of JOid x \<Rightarrow> oid_toString x | _ \<Rightarrow> toString P v)"

section \<open>The two stores and the event loop\<close>

datatype outcome = Ok | Fail string

datatype filter = ById objectid | BySensorId string

datatype call =
    FindOne filter
  | InsertOne document
  | Get string
  | Set string string "number option"
  | Del string
  | Ttl string

text \<open>
  The state the handlers run in: the collection \<^verbatim>\<open>readings\<close>, the Redis keyspace (a
  payload and an optional deadline per key), the clock in milliseconds, the generator
  behind \<^verbatim>\<open>new ObjectId()\<close>, the callbacks handed to \<^verbatim>\<open>setTimeout\<close> and the console. The
  plans say which of the coming round trips to MongoDB and to Redis fail (an exhausted
  plan means success), \<open>delays\<close> how many milliseconds each coming round trip to either
  store takes (none when exhausted); \<open>trace\<close> records every round trip that was started,
  in order.
\<close>

record world =
  readings :: "document list"
  redis :: "string \<rightharpoonup> string \<times> nat option"
  now :: nat
  mongo_plan :: "outcome list"
  redis_plan :: "outcome list"
  delays :: "nat list"
  oid_gen :: "nat \<Rightarrow> objectid"
  oid_next :: nat
  timers :: "(objectid \<times> document) list"
  console :: "string list"
  trace :: "call list"

type_synonym 'a async = "world \<Rightarrow> (error + 'a) \<times> world"

definition resolve :: "'a \<Rightarrow> 'a async" where
  "resolve x w = (Inr x, w)"

definition reject :: "error \<Rightarrow> 'a async" where
  "reject e w = (Inl e, w)"

definition await :: "'a async \<Rightarrow> ('a \<Rightarrow> 'b async) \<Rightarrow> 'b async" where
  "await m f w = (case m w of (Inl e, w') \<Rightarrow> (Inl e, w') | (Inr x, w') \<Rightarrow> f x w')"

definition try_catch :: "'a async \<Rightarrow> (error \<Rightarrow> 'a async) \<Rightarrow> 'a async" where
  "try_catch m h w = (case m w of (Inl e, w') \<Rightarrow> h e w' | (Inr x, w') \<Rightarrow> (Inr x, w'))"

text \<open>A round trip takes its time: the clock moves on by the next delay.\<close>

definition elapse :: "world \<Rightarrow> world" where
  "elapse w =
     w\<lparr>now := now w + (case delays w of [] \<Rightarrow> 0 | d # _ \<Rightarrow> d), delays := tl (delays w)\<rparr>"

subsection \<open>MongoDB\<close>

definition mongo_roundtrip :: "call \<Rightarrow> unit async" where
  "mongo_roundtrip c w =
     (let w1 = (elapse w)\<lparr>trace := trace w @ [c]\<rparr>
      in case mongo_plan w1 of
           [] \<Rightarrow> (Inr (), w1)
         | Ok # p \<Rightarrow> (Inr (), w1\<lparr>mongo_plan := p\<rparr>)
         | Fail m # p \<Rightarrow> (Inl (Error m), w1\<lparr>mongo_plan := p\<rparr>))"

text \<open>
  An equality filter matches a field that holds the value, or an array that contains it.
\<close>

fun matches :: "filter \<Rightarrow> document \<Rightarrow> bool" where
  "matches (ById x) d = (map_of d ''_id'' = Some (JOid x))"
| "matches (BySensorId s) d =
     (case map_of d ''sensorId'' of
        None \<Rightarrow> False
      | Some (JArr xs) \<Rightarrow> JStr s \<in> set xs
      | Some v \<Rightarrow> v = JStr s)"

definition findOne :: "filter \<Rightarrow> jsval async" where
  "findOne q =
     await (mongo_roundtrip (FindOne q))
       (\<lambda>_ w. (Inr (case find (matches q) (readings w) of None \<Rightarrow> JNull | Some d \<Rightarrow> JObj d), w))"

text \<open>\<^verbatim>\<open>new ObjectId()\<close>: the next identifier of the generator.\<close>

definition new_ObjectId :: "objectid async" where
  "new_ObjectId w = (Inr (oid_gen w (oid_next w)), w\<lparr>oid_next := Suc (oid_next w)\<rparr>)"

text \<open>
  \<^verbatim>\<open>insertOne\<close>: the driver gives a document that has no \<^verbatim>\<open>_id\<close> (or a null one) a new
  ObjectId, writing it into the document it was passed; the server rejects an \<^verbatim>\<open>_id\<close> that
  is already in the collection and stores the document with \<^verbatim>\<open>_id\<close> as its first field.
  The result is \<^verbatim>\<open>insertedId\<close> and the document as the driver left it.
\<close>

definition prepare :: "document \<Rightarrow> (jsval \<times> document) async" where
  "prepare d =
     (case map_of d ''_id'' of
        Some v \<Rightarrow>
          if v \<noteq> JNull then resolve (v, d)
          else await new_ObjectId (\<lambda>x. resolve (JOid x, AList.update ''_id'' (JOid x) d))
      | None \<Rightarrow> await new_ObjectId (\<lambda>x. resolve (JOid x, AList.update ''_id'' (JOid x) d)))"

definition insertOne :: "document \<Rightarrow> (jsval \<times> document) async" where
  "insertOne d =
     await (prepare d) (\<lambda>(i, d').
     await (mongo_roundtrip (InsertOne d')) (\<lambda>_ w.
       if \<exists>e \<in> set (readings w). map_of e ''_id'' = Some i
       then (Inl (Error ''E11000 duplicate key error''), w)
       else (Inr (i, d'), w\<lparr>readings := readings w @ [(''_id'', i) # AList.delete ''_id'' d']\<rparr>)))"

text \<open>
  \<^verbatim>\<open>new ObjectId(id)\<close> on a string: 24 hexadecimal digits, or it throws.
\<close>

definition is_hex :: "char \<Rightarrow> bool" where
  "is_hex c = (c \<in> set ''0123456789abcdefABCDEF'')"

definition hex_lower :: "char \<Rightarrow> char" where
  "hex_lower c =
     (if c = CHR ''A'' then CHR ''a'' else if c = CHR ''B'' then CHR ''b''
      else if c = CHR ''C'' then CHR ''c'' else if c = CHR ''D'' then CHR ''d''
      else if c = CHR ''E'' then CHR ''e'' else if c = CHR ''F'' then CHR ''f'' else c)"

definition ObjectId_of :: "string \<Rightarrow> error + objectid" where
  "ObjectId_of s =
     (if length s = 24 \<and> list_all is_hex s then Inr (ObjectId (map hex_lower s))
      else Inl (Error ''input must be a 24 character hex string, 12 byte Uint8Array, or an integer''))"

subsection \<open>Redis\<close>

definition redis_roundtrip :: "call \<Rightarrow> unit async" where
  "redis_roundtrip c w =
     (let w1 = (elapse w)\<lparr>trace := trace w @ [c]\<rparr>
      in case redis_plan w1 of
           [] \<Rightarrow> (Inr (), w1)
         | Ok # p \<Rightarrow> (Inr (), w1\<lparr>redis_plan := p\<rparr>)
         | Fail m # p \<Rightarrow> (Inl (Error m), w1\<lparr>redis_plan := p\<rparr>))"

text \<open>A key whose deadline (in milliseconds) has passed is gone.\<close>

definition live :: "world \<Rightarrow> string \<Rightarrow> (string \<times> nat option) option" where
  "live w k =
     (case redis w k of
        None \<Rightarrow> None
      | Some (v, None) \<Rightarrow> Some (v, None)
      | Some (v, Some t) \<Rightarrow> if t < now w then None else Some (v, Some t))"

definition redis_get :: "string \<Rightarrow> string option async" where
  "redis_get k = await (redis_roundtrip (Get k)) (\<lambda>_ w. (Inr (map_option fst (live w k)), w))"

text \<open>
  \<^verbatim>\<open>SET key value\<close> and \<^verbatim>\<open>SET key value EX seconds\<close>: the server takes a whole number
  of seconds above 0 and refuses anything else.
\<close>

definition redis_set :: "string \<Rightarrow> string \<Rightarrow> number option \<Rightarrow> unit async" where
  "redis_set k v ex =
     await (redis_roundtrip (Set k v ex)) (\<lambda>_ w.
       case ex of
         None \<Rightarrow> (Inr (), w\<lparr>redis := (redis w)(k \<mapsto> (v, None))\<rparr>)
       | Some (Finite q) \<Rightarrow>
           if of_int \<lfloor>q\<rfloor> \<noteq> q
           then (Inl (Error ''ERR value is not an integer or out of range''), w)
           else if q \<le> 0 then (Inl (Error ''ERR invalid expire time in set command''), w)
           else (Inr (), w\<lparr>redis := (redis w)(k \<mapsto> (v, Some (now w + 1000 * nat \<lfloor>q\<rfloor>)))\<rparr>)
       | Some _ \<Rightarrow> (Inl (Error ''ERR value is not an integer or out of range''), w))"

definition redis_del :: "string \<Rightarrow> unit async" where
  "redis_del k = await (redis_roundtrip (Del k)) (\<lambda>_ w. (Inr (), w\<lparr>redis := (redis w)(k := None)\<rparr>))"

text \<open>
  \<^verbatim>\<open>TTL\<close>: -2 for no such key, -1 for a key without deadline, else the time left, rounded
  to the nearest second.
\<close>

definition redis_ttl :: "string \<Rightarrow> int async" where
  "redis_ttl k =
     await (redis_roundtrip (Ttl k)) (\<lambda>_ w.
       (Inr (case live w k of
               None \<Rightarrow> - 2
             | Some (v, None) \<Rightarrow> - 1
             | Some (v, Some t) \<Rightarrow> (int t - int (now w) + 500) div 1000), w))"

section \<open>The server\<close>

definition key :: "string \<Rightarrow> string" where
  "key i = ''readings:'' @ i"

definition getFromMongo :: "string \<Rightarrow> jsval async" where
  "getFromMongo i =
     try_catch
       (case ObjectId_of i of
          Inl e \<Rightarrow> reject e
        | Inr x \<Rightarrow> findOne (ById x))
       (\<lambda>_. findOne (BySensorId i))"

text \<open>The default \<^verbatim>\<open>ttlSec = null\<close> is \<open>None\<close>, and \<^verbatim>\<open>if (ttlSec)\<close> fails for it.\<close>

definition setCacheJSON :: "platform \<Rightarrow> string \<Rightarrow> jsval \<Rightarrow> number option \<Rightarrow> unit async" where
  "setCacheJSON P k v ttlSec =
     (let payload = JSON_stringify P v
      in case ttlSec of
           None \<Rightarrow> redis_set k payload None
         | Some n \<Rightarrow> if nonzero n then redis_set k payload (Some n) else redis_set k payload None)"

definition getCacheJSON :: "platform \<Rightarrow> string \<Rightarrow> jsval async" where
  "getCacheJSON P k =
     await (redis_get k) (\<lambda>raw.
       case raw of
         None \<Rightarrow> resolve JNull
       | Some s \<Rightarrow>
           if s = [] then resolve JNull
           else (case JSON_parse P s of
                   Inl e \<Rightarrow> reject e
                 | Inr v \<Rightarrow> resolve v))"

record response =
  status :: nat
  body :: jsval

definition failure :: "string \<Rightarrow> response" where
  "failure m = \<lparr>status = 500, body = JObj [(''error'', JStr m)]\<rparr>"

text \<open>
  Every handler is \<^verbatim>\<open>try { ... return res.json(...) } catch (e) { return
  res.status(500).json({ error: e.message }) }\<close>.
\<close>

definition handler :: "response async \<Rightarrow> world \<Rightarrow> response \<times> world" where
  "handler m w =
     (case m w of
        (Inr r, w') \<Rightarrow> (r, w')
      | (Inl e, w') \<Rightarrow> (failure (message e), w'))"

definition cache_aside :: "platform \<Rightarrow> string \<Rightarrow> world \<Rightarrow> response \<times> world" where
  "cache_aside P i =
     handler
       (await (getCacheJSON P (key i)) (\<lambda>cached.
        await (if \<not> truthy cached
               then await (getFromMongo i) (\<lambda>found.
                    await (if truthy found then setCacheJSON P (key i) found None else resolve ())
                      (\<lambda>_. resolve found))
               else resolve cached) (\<lambda>data.
        resolve \<lparr>status = 200,
                 body = JObj [(''strategy'', JStr ''cache-aside''),
                              (''warm'', JBool (truthy cached)), (''data'', data)]\<rparr>)))"

definition read_through :: "platform \<Rightarrow> string \<Rightarrow> world \<Rightarrow> response \<times> world" where
  "read_through P i =
     handler
       (await (getCacheJSON P (key i)) (\<lambda>cached.
        await (if \<not> truthy cached
               then await (getFromMongo i) (\<lambda>found.
                    await (if truthy found then setCacheJSON P (key i) found None else resolve ())
                      (\<lambda>_. resolve found))
               else resolve cached) (\<lambda>data.
        resolve \<lparr>status = 200,
                 body = JObj [(''strategy'', JStr ''read-through''),
                              (''warm'', JBool (truthy cached)), (''data'', data)]\<rparr>)))"

text \<open>
  \<^verbatim>\<open>{ _id: i, ...fs }\<close>: \<^verbatim>\<open>_id\<close> comes first, and a later \<^verbatim>\<open>_id\<close> overwrites its value.
  Fields keep the order in which they were written. (JavaScript lists the fields whose
  names are array indices before all others; payloads are taken to have no such names.)
\<close>

definition with_id :: "jsval \<Rightarrow> document \<Rightarrow> document" where
  "with_id i fs = foldl (\<lambda>d (k, v). AList.update k v d) [(''_id'', i)] fs"

definition write_through :: "platform \<Rightarrow> document \<Rightarrow> world \<Rightarrow> response \<times> world" where
  "write_through P payload =
     handler
       (await (insertOne payload) (\<lambda>(insertedId, payload').
        let doc = with_id insertedId payload'
        in await (setCacheJSON P (key (id_toString P insertedId)) (JObj doc) None) (\<lambda>_.
           resolve \<lparr>status = 201,
                    body = JObj [(''strategy'', JStr ''write-through''), (''doc'', JObj doc)]\<rparr>)))"

definition setTimeout :: "objectid \<times> document \<Rightarrow> unit async" where
  "setTimeout t w = (Inr (), w\<lparr>timers := timers w @ [t]\<rparr>)"

definition write_behind :: "platform \<Rightarrow> document \<Rightarrow> world \<Rightarrow> response \<times> world" where
  "write_behind P payload =
     handler
       (await new_ObjectId (\<lambda>tempId.
        let doc = with_id (JOid tempId) payload
        in await (setCacheJSON P (key (oid_toString tempId)) (JObj doc) None) (\<lambda>_.
           await (setTimeout (tempId, doc)) (\<lambda>_.
           resolve \<lparr>status = 202,
                    body = JObj [(''strategy'', JStr ''write-behind''), (''queued'', JBool True),
                                 (''doc'', JObj doc)]\<rparr>))))"

definition console_log :: "string \<Rightarrow> unit async" where
  "console_log s w = (Inr (), w\<lparr>console := console w @ [s]\<rparr>)"

text \<open>
  The callback of the timer, closed over \<^verbatim>\<open>tempId\<close> and \<^verbatim>\<open>doc\<close>: \<open>flush_try\<close> is its
  \<^verbatim>\<open>try\<close> block, \<open>flush\<close> the whole callback, whose \<^verbatim>\<open>catch\<close> logs the error. Nothing is
  returned to anyone.
\<close>

definition flush_try :: "platform \<Rightarrow> objectid \<times> document \<Rightarrow> unit async" where
  "flush_try P t =
     (case t of (tempId, doc) \<Rightarrow>
        await (insertOne (AList.delete ''_id'' doc)) (\<lambda>(insertedId, rest).
        await (redis_del (key (oid_toString tempId))) (\<lambda>_.
        let persisted = with_id insertedId rest
        in await (setCacheJSON P (key (id_toString P insertedId)) (JObj persisted) None) (\<lambda>_.
           console_log (''write-behind persisted: '' @ id_toString P insertedId)))))"

definition flush :: "platform \<Rightarrow> objectid \<times> document \<Rightarrow> world \<Rightarrow> world" where
  "flush P t w =
     snd (try_catch (flush_try P t)
            (\<lambda>err. console_log (''write-behind flush failed: '' @ message err)) w)"

text \<open>The event loop runs the oldest pending callback.\<close>

definition run_timer :: "platform \<Rightarrow> world \<Rightarrow> world" where
  "run_timer P w = (case timers w of [] \<Rightarrow> w | t # ts \<Rightarrow> flush P t (w\<lparr>timers := ts\<rparr>))"

text \<open>The TTL route; \<open>ttl\<close> is \<^verbatim>\<open>Number(DEFAULT_TTL_SECONDS)\<close>.\<close>

definition ttl_read :: "platform \<Rightarrow> number \<Rightarrow> string \<Rightarrow> world \<Rightarrow> response \<times> world" where
  "ttl_read P ttl i =
     handler
       (await (getCacheJSON P (key i)) (\<lambda>cached.
        await (if \<not> truthy cached
               then await (getFromMongo i) (\<lambda>found.
                    await (if truthy found then setCacheJSON P (key i) found (Some ttl) else resolve ())
                      (\<lambda>_. resolve found))
               else resolve cached) (\<lambda>data.
        await (redis_ttl (key i)) (\<lambda>ttlLeft.
        resolve \<lparr>status = 200,
                 body = JObj [(''strategy'', JStr ''ttl''), (''warm'', JBool (truthy cached)),
                              (''ttlLeftSeconds'', JNum ttlLeft), (''data'', data)]\<rparr>))))"

text \<open>
  What the process does, one thing after the other: it serves a request on one of the
  five routes, or the event loop runs a timer. A run is a sequence of these.
\<close>

datatype event =
    CacheAside string
  | ReadThrough string
  | WriteThrough document
  | WriteBehind document
  | TtlRead number string
  | Timer

fun step :: "platform \<Rightarrow> world \<Rightarrow> event \<Rightarrow> world" where
  "step P w (CacheAside i) = snd (cache_aside P i w)"
| "step P w (ReadThrough i) = snd (read_through P i w)"
| "step P w (WriteThrough payload) = snd (write_through P payload w)"
| "step P w (WriteBehind payload) = snd (write_behind P payload w)"
| "step P w (TtlRead ttl i) = snd (ttl_read P ttl i w)"
| "step P w Timer = run_timer P w"

definition run :: "platform \<Rightarrow> event list \<Rightarrow> world \<Rightarrow> world" where
  "run P evs w = foldl (step P) w evs"

section \<open>Vocabulary of the properties\<close>

text \<open>Whether the next round trip of a plan succeeds, and the message it fails with.\<close>

definition next_ok :: "outcome list \<Rightarrow> bool" where
  "next_ok p = (case p of Fail m # _ \<Rightarrow> False | _ \<Rightarrow> True)"

definition fail_msg :: "outcome list \<Rightarrow> string" where
  "fail_msg p = (case p of Fail m # _ \<Rightarrow> m | _ \<Rightarrow> [])"

text \<open>The time the \<open>k\<close>-th of the coming round trips takes, counted from 0.\<close>

definition delay_at :: "world \<Rightarrow> nat \<Rightarrow> nat" where
  "delay_at w k = (case drop k (delays w) of [] \<Rightarrow> 0 | d # _ \<Rightarrow> d)"

text \<open>A world in which no round trip is going to fail.\<close>

definition healthy :: "world \<Rightarrow> bool" where
  "healthy w = (list_all (\<lambda>c. c = Ok) (mongo_plan w) \<and> list_all (\<lambda>c. c = Ok) (redis_plan w))"

text \<open>The round trips started between two worlds.\<close>

definition new_calls :: "world \<Rightarrow> world \<Rightarrow> call list" where
  "new_calls w w' = drop (length (trace w)) (trace w')"

text \<open>The readings the collection has gained between two worlds.\<close>

definition stored_since :: "world \<Rightarrow> world \<Rightarrow> document list" where
  "stored_since w w' = drop (length (readings w)) (readings w')"

definition is_lookup :: "call \<Rightarrow> bool" where
  "is_lookup c = (case c of FindOne q \<Rightarrow> True | _ \<Rightarrow> False)"

definition is_insert :: "call \<Rightarrow> bool" where
  "is_insert c = (case c of InsertOne d \<Rightarrow> True | _ \<Rightarrow> False)"

definition is_cache_write :: "call \<Rightarrow> bool" where
  "is_cache_write c = (case c of Set k v ex \<Rightarrow> True | Del k \<Rightarrow> True | _ \<Rightarrow> False)"

text \<open>The fields of the JSON object a response carries.\<close>

definition sent :: "response \<Rightarrow> string \<Rightarrow> jsval option" where
  "sent r = (case body r of JObj fs \<Rightarrow> map_of fs | _ \<Rightarrow> Map.empty)"

text \<open>The lookups \<open>getFromMongo\<close> starts for an identifier in a world.\<close>

definition lookups_of :: "string \<Rightarrow> world \<Rightarrow> call list" where
  "lookups_of i w =
     (case ObjectId_of i of
        Inl e \<Rightarrow> [FindOne (BySensorId i)]
      | Inr x \<Rightarrow> if next_ok (mongo_plan w) then [FindOne (ById x)]
                 else [FindOne (ById x), FindOne (BySensorId i)])"

section \<open>Sample data\<close>

text \<open>
  A stored reading, a payload, a generator, and the platform restricted to the values
  used here: \<open>demo_stringify\<close> prints objects whose fields hold strings and ObjectIds,
  \<open>demo_parse\<close> knows the text of the stored reading and \<^verbatim>\<open>null\<close>, and rejects the rest.
\<close>

definition demo_id :: string where
  "demo_id = ''64b7f0c2a1d3e4f5a6b7c8d9''"

definition demo_doc :: document where
  "demo_doc = [(''_id'', JOid (ObjectId demo_id)), (''sensorId'', JStr ''s1'')]"

definition demo_cached :: document where
  "demo_cached = [(''_id'', JStr demo_id), (''sensorId'', JStr ''s1'')]"

definition demo_text :: string where
  \<open>demo_text = ''{"_id":"64b7f0c2a1d3e4f5a6b7c8d9","sensorId":"s1"}''\<close>

definition demo_payload :: document where
  "demo_payload = [(''sensorId'', JStr ''s2'')]"

definition demo_gen :: "nat \<Rightarrow> objectid" where
  "demo_gen n =
     (if n = 0 then ObjectId ''66aa00000000000000000001''
      else if n = 1 then ObjectId ''66aa00000000000000000002''
      else ObjectId ''66aa00000000000000000003'')"

fun demo_value :: "jsval \<Rightarrow> string" where
  \<open>demo_value (JStr s) = ''"'' @ s @ ''"''\<close>
| \<open>demo_value (JOid x) = ''"'' @ oid_toString x @ ''"''\<close>
| \<open>demo_value v = ''null''\<close>

fun demo_members :: "document \<Rightarrow> string" where
  \<open>demo_members [] = []\<close>
| \<open>demo_members [(k, v)] = ''"'' @ k @ ''":'' @ demo_value v\<close>
| \<open>demo_members ((k, v) # fs) = ''"'' @ k @ ''":'' @ demo_value v @ '','' @ demo_members fs\<close>

definition demo_stringify :: "jsval \<Rightarrow> string" where
  "demo_stringify v = (case v of JObj fs \<Rightarrow> ''{'' @ demo_members fs @ ''}'' | _ \<Rightarrow> demo_value v)"

definition demo_parse :: "string \<Rightarrow> error + jsval" where
  "demo_parse s =
     (if s = demo_text then Inr (JObj demo_cached)
      else if s = ''null'' then Inr JNull
      else if s = ''{bad'' then Inl (Error ''Unexpected token b in JSON at position 1'')
      else Inl (Error ''Unexpected end of JSON input''))"

definition demo_P :: platform where
  "demo_P = \<lparr>JSON_parse = demo_parse, JSON_stringify = demo_stringify,
             toString = (\<lambda>v. case v of JStr s \<Rightarrow> s | _ \<Rightarrow> ''[object Object]'')\<rparr>"

definition demo_w :: world where
  "demo_w = \<lparr>readings = [demo_doc], redis = Map.empty, now = 100, mongo_plan = [],
             redis_plan = [], delays = [], oid_gen = demo_gen, oid_next = 0, timers = [],
             console = [], trace = []\<rparr>"

text \<open>The same world with MongoDB unreachable for one round trip.\<close>

definition demo_w_mongo_down :: world where
  "demo_w_mongo_down = demo_w\<lparr>mongo_plan := [Fail ''connection closed'']\<rparr>"

text \<open>The same world with a payload under the reading's key that is not JSON.\<close>

definition demo_w_corrupt :: world where
  "demo_w_corrupt = demo_w\<lparr>redis := [key demo_id \<mapsto> (''{bad'', None)]\<rparr>"


text \<open>The same world with Redis unreachable for one round trip.\<close>

definition demo_w_redis_down :: world where
  "demo_w_redis_down = demo_w\<lparr>redis_plan := [Fail ''connection closed'']\<rparr>"

section \<open>Round trips, one equation each\<close>

lemma elapse_simps [simp]:
  "readings (elapse w) = readings w"
  "redis (elapse w) = redis w"
  "mongo_plan (elapse w) = mongo_plan w"
  "redis_plan (elapse w) = redis_plan w"
  "oid_gen (elapse w) = oid_gen w"
  "oid_next (elapse w) = oid_next w"
  "timers (elapse w) = timers w"
  "console (elapse w) = console w"
  "trace (elapse w) = trace w"
  "now (elapse w) = now w + delay_at w 0"
  "delays (elapse w) = tl (delays w)"
  by (simp_all add: elapse_def delay_at_def)

lemma elapse_update [simp]:
  "elapse (w\<lparr>trace := t\<rparr>) = (elapse w)\<lparr>trace := t\<rparr>"
  "elapse (w\<lparr>mongo_plan := p\<rparr>) = (elapse w)\<lparr>mongo_plan := p\<rparr>"
  "elapse (w\<lparr>redis_plan := p\<rparr>) = (elapse w)\<lparr>redis_plan := p\<rparr>"
  "elapse (w\<lparr>redis := m\<rparr>) = (elapse w)\<lparr>redis := m\<rparr>"
  "elapse (w\<lparr>readings := ds\<rparr>) = (elapse w)\<lparr>readings := ds\<rparr>"
  "elapse (w\<lparr>oid_next := n\<rparr>) = (elapse w)\<lparr>oid_next := n\<rparr>"
  "elapse (w\<lparr>timers := ts\<rparr>) = (elapse w)\<lparr>timers := ts\<rparr>"
  "elapse (w\<lparr>console := c\<rparr>) = (elapse w)\<lparr>console := c\<rparr>"
  by (simp_all add: elapse_def)

lemma elapse_pow_simps [simp]:
  "readings ((elapse ^^ n) w) = readings w"
  "redis ((elapse ^^ n) w) = redis w"
  "mongo_plan ((elapse ^^ n) w) = mongo_plan w"
  "redis_plan ((elapse ^^ n) w) = redis_plan w"
  "oid_gen ((elapse ^^ n) w) = oid_gen w"
  "oid_next ((elapse ^^ n) w) = oid_next w"
  "timers ((elapse ^^ n) w) = timers w"
  "console ((elapse ^^ n) w) = console w"
  "trace ((elapse ^^ n) w) = trace w"
  by (induction n) simp_all

lemma elapse_pow_update [simp]:
  "(elapse ^^ n) (w\<lparr>trace := t\<rparr>) = ((elapse ^^ n) w)\<lparr>trace := t\<rparr>"
  "(elapse ^^ n) (w\<lparr>mongo_plan := p\<rparr>) = ((elapse ^^ n) w)\<lparr>mongo_plan := p\<rparr>"
  "(elapse ^^ n) (w\<lparr>redis_plan := p\<rparr>) = ((elapse ^^ n) w)\<lparr>redis_plan := p\<rparr>"
  "(elapse ^^ n) (w\<lparr>redis := m\<rparr>) = ((elapse ^^ n) w)\<lparr>redis := m\<rparr>"
  by (induction n) simp_all

lemma delay_at_elapse [simp]: "delay_at (elapse w) k = delay_at w (Suc k)"
  by (simp add: delay_at_def elapse_def drop_Suc)

lemma delay_at_update [simp]:
  "delay_at (w\<lparr>trace := t\<rparr>) k = delay_at w k"
  "delay_at (w\<lparr>mongo_plan := p\<rparr>) k = delay_at w k"
  "delay_at (w\<lparr>redis_plan := p\<rparr>) k = delay_at w k"
  "delay_at (w\<lparr>redis := m\<rparr>) k = delay_at w k"
  by (simp_all add: delay_at_def)

lemma mongo_roundtrip_eq:
  "mongo_roundtrip c w =
     (if next_ok (mongo_plan w) then Inr () else Inl (Error (fail_msg (mongo_plan w))),
      (elapse w)\<lparr>trace := trace w @ [c], mongo_plan := tl (mongo_plan w)\<rparr>)"
  by (simp add: mongo_roundtrip_def next_ok_def fail_msg_def Let_def
        split: list.splits outcome.splits)

lemma redis_roundtrip_eq:
  "redis_roundtrip c w =
     (if next_ok (redis_plan w) then Inr () else Inl (Error (fail_msg (redis_plan w))),
      (elapse w)\<lparr>trace := trace w @ [c], redis_plan := tl (redis_plan w)\<rparr>)"
  by (simp add: redis_roundtrip_def next_ok_def fail_msg_def Let_def
        split: list.splits outcome.splits)

lemma all_ok_next: "list_all (\<lambda>c. c = Ok) p \<Longrightarrow> next_ok p"
  by (cases p) (auto simp: next_ok_def)

lemma all_ok_tl: "list_all (\<lambda>c. c = Ok) p \<Longrightarrow> list_all (\<lambda>c. c = Ok) (tl p)"
  by (cases p) auto

lemma live_frame:
  "live (w\<lparr>trace := t\<rparr>) k = live w k"
  "live (w\<lparr>redis_plan := p\<rparr>) k = live w k"
  "live (w\<lparr>mongo_plan := q\<rparr>) k = live w k"
  by (simp_all add: live_def split: option.splits)

lemma findOne_eq:
  "findOne q w =
     (if next_ok (mongo_plan w)
      then Inr (case find (matches q) (readings w) of None \<Rightarrow> JNull | Some d \<Rightarrow> JObj d)
      else Inl (Error (fail_msg (mongo_plan w))),
      (elapse w)\<lparr>trace := trace w @ [FindOne q], mongo_plan := tl (mongo_plan w)\<rparr>)"
  by (simp add: findOne_def await_def mongo_roundtrip_eq)

lemma getFromMongo_eq:
  "getFromMongo i w =
     (case ObjectId_of i of
        Inl e \<Rightarrow> findOne (BySensorId i) w
      | Inr x \<Rightarrow>
          if next_ok (mongo_plan w) then findOne (ById x) w
          else findOne (BySensorId i) (snd (findOne (ById x) w)))"
  by (simp add: getFromMongo_def try_catch_def reject_def findOne_eq split: sum.splits)

lemma getCacheJSON_eq:
  "getCacheJSON P k w =
     (if next_ok (redis_plan w)
      then (case live (elapse w) k of
              None \<Rightarrow> Inr JNull
            | Some (s, ex) \<Rightarrow>
                if s = [] then Inr JNull
                else JSON_parse P s)
      else Inl (Error (fail_msg (redis_plan w))),
      (elapse w)\<lparr>trace := trace w @ [Get k], redis_plan := tl (redis_plan w)\<rparr>)"
  by (simp add: getCacheJSON_def redis_get_def await_def redis_roundtrip_eq resolve_def
        reject_def live_frame split: option.splits prod.splits sum.splits)

lemma redis_set_plain:
  "redis_set k v None w =
     (if next_ok (redis_plan w)
      then (Inr (), (elapse w)\<lparr>trace := trace w @ [Set k v None],
                      redis_plan := tl (redis_plan w),
                      redis := (redis w)(k \<mapsto> (v, None))\<rparr>)
      else (Inl (Error (fail_msg (redis_plan w))),
            (elapse w)\<lparr>trace := trace w @ [Set k v None], redis_plan := tl (redis_plan w)\<rparr>))"
  by (simp add: redis_set_def await_def redis_roundtrip_eq)

lemma redis_set_expiring:
  "redis_set k v (Some (Finite q)) w =
     (if \<not> next_ok (redis_plan w)
      then (Inl (Error (fail_msg (redis_plan w))),
            (elapse w)\<lparr>trace := trace w @ [Set k v (Some (Finite q))],
              redis_plan := tl (redis_plan w)\<rparr>)
      else if of_int \<lfloor>q\<rfloor> \<noteq> q
      then (Inl (Error ''ERR value is not an integer or out of range''),
            (elapse w)\<lparr>trace := trace w @ [Set k v (Some (Finite q))],
              redis_plan := tl (redis_plan w)\<rparr>)
      else if q \<le> 0
      then (Inl (Error ''ERR invalid expire time in set command''),
            (elapse w)\<lparr>trace := trace w @ [Set k v (Some (Finite q))],
              redis_plan := tl (redis_plan w)\<rparr>)
      else (Inr (), (elapse w)\<lparr>trace := trace w @ [Set k v (Some (Finite q))],
                      redis_plan := tl (redis_plan w),
                      redis := (redis w)(k \<mapsto>
                        (v, Some (now w + delay_at w 0 + 1000 * nat \<lfloor>q\<rfloor>)))\<rparr>))"
  by (simp add: redis_set_def await_def redis_roundtrip_eq)

lemma redis_set_step:
  "redis_set k v ex w = (r, w3) \<Longrightarrow>
     readings w3 = readings w \<and> mongo_plan w3 = mongo_plan w \<and>
     timers w3 = timers w \<and> redis_plan w3 = tl (redis_plan w) \<and>
     oid_gen w3 = oid_gen w \<and> oid_next w3 = oid_next w \<and>
     trace w3 = trace w @ [Set k v ex]"
  by (auto simp add: redis_set_def await_def redis_roundtrip_eq
        split: option.splits number.splits if_splits)

lemma setCacheJSON_eq:
  "setCacheJSON P k v ttlSec =
     redis_set k (JSON_stringify P v)
       (case ttlSec of None \<Rightarrow> None | Some n \<Rightarrow> if nonzero n then Some n else None)"
  by (simp add: setCacheJSON_def Let_def split: option.splits)

lemmas redis_set_eq = redis_set_plain redis_set_expiring

lemma redis_ttl_eq:
  "redis_ttl k w =
     (if next_ok (redis_plan w)
      then Inr (case live (elapse w) k of
                  None \<Rightarrow> - 2
                | Some (v, None) \<Rightarrow> - 1
                | Some (v, Some t) \<Rightarrow> (int t - int (now w + delay_at w 0) + 500) div 1000)
      else Inl (Error (fail_msg (redis_plan w))),
      (elapse w)\<lparr>trace := trace w @ [Ttl k], redis_plan := tl (redis_plan w)\<rparr>)"
  by (simp add: redis_ttl_def await_def redis_roundtrip_eq live_frame split: option.splits)

lemma redis_del_eq:
  "redis_del k w =
     (if next_ok (redis_plan w)
      then (Inr (), (elapse w)\<lparr>trace := trace w @ [Del k], redis_plan := tl (redis_plan w),
                       redis := (redis w)(k := None)\<rparr>)
      else (Inl (Error (fail_msg (redis_plan w))),
            (elapse w)\<lparr>trace := trace w @ [Del k], redis_plan := tl (redis_plan w)\<rparr>))"
  by (simp add: redis_del_def await_def redis_roundtrip_eq)

lemmas read_eqs = getCacheJSON_eq getFromMongo_eq findOne_eq setCacheJSON_eq redis_set_eq redis_ttl_eq
lemmas monad = handler_def await_def resolve_def reject_def
lemmas vocab = new_calls_def is_insert_def is_lookup_def is_cache_write_def sent_def failure_def
lemmas demo = demo_w_def demo_P_def demo_parse_def demo_stringify_def demo_text_def demo_doc_def
  demo_cached_def demo_id_def demo_gen_def demo_payload_def

lemma find_absent: "\<not> (\<exists>d \<in> set ds. p d) \<Longrightarrow> find p ds = None"
  by (simp add: find_None_iff)

lemma getCacheJSON_step:
  "getCacheJSON P k w = (r, w1) \<Longrightarrow>
     w1 = (elapse w)\<lparr>trace := trace w @ [Get k], redis_plan := tl (redis_plan w)\<rparr>"
  by (simp add: getCacheJSON_eq)

lemma getFromMongo_step:
  "getFromMongo i w = (r, w2) \<Longrightarrow>
     w2 = ((elapse ^^ length (lookups_of i w)) w)\<lparr>trace := trace w @ lookups_of i w,
            mongo_plan := drop (length (lookups_of i w)) (mongo_plan w)\<rparr>"
  by (auto simp add: getFromMongo_eq findOne_eq lookups_of_def drop_Suc split: sum.splits if_splits)

lemma setCacheJSON_step:
  "setCacheJSON P k v t w = (r, w3) \<Longrightarrow>
     readings w3 = readings w \<and> mongo_plan w3 = mongo_plan w \<and>
     timers w3 = timers w \<and> redis_plan w3 = tl (redis_plan w) \<and>
     oid_gen w3 = oid_gen w \<and> oid_next w3 = oid_next w \<and>
     trace w3 = trace w @ [Set k (JSON_stringify P v)
                             (case t of None \<Rightarrow> None | Some n \<Rightarrow> if nonzero n then Some n else None)]"
  unfolding setCacheJSON_eq by (rule redis_set_step)

lemma lookups_of_facts:
  "filter is_insert (lookups_of i w) = []"
  "length (filter is_lookup (lookups_of i w)) \<le> 2"
  "next_ok (mongo_plan w) \<Longrightarrow> length (filter is_lookup (lookups_of i w)) \<le> Suc 0"
  "isl (ObjectId_of i) \<Longrightarrow> length (filter is_lookup (lookups_of i w)) \<le> Suc 0"
  by (auto simp add: lookups_of_def is_insert_def is_lookup_def split: sum.splits)

lemma lookups_of_frame [simp]:
  "lookups_of i (w\<lparr>trace := t\<rparr>) = lookups_of i w"
  "lookups_of i (w\<lparr>redis_plan := p\<rparr>) = lookups_of i w"
  "lookups_of i (elapse w) = lookups_of i w"
  by (simp_all add: lookups_of_def split: sum.splits)

lemma cache_aside_eq:
  "cache_aside P i w =
     (case getCacheJSON P (key i) w of
        (Inl e, w1) \<Rightarrow> (failure (message e), w1)
      | (Inr c, w1) \<Rightarrow>
          if truthy c
          then (\<lparr>status = 200, body = JObj [(''strategy'', JStr ''cache-aside''),
                   (''warm'', JBool True), (''data'', c)]\<rparr>, w1)
          else (case getFromMongo i w1 of
                  (Inl e, w2) \<Rightarrow> (failure (message e), w2)
                | (Inr f, w2) \<Rightarrow>
                    if truthy f
                    then (case setCacheJSON P (key i) f None w2 of
                            (Inl e, w3) \<Rightarrow> (failure (message e), w3)
                          | (Inr u, w3) \<Rightarrow>
                              (\<lparr>status = 200, body = JObj [(''strategy'', JStr ''cache-aside''),
                                 (''warm'', JBool False), (''data'', f)]\<rparr>, w3))
                    else (\<lparr>status = 200, body = JObj [(''strategy'', JStr ''cache-aside''),
                            (''warm'', JBool False), (''data'', f)]\<rparr>, w2)))"
  by (simp add: cache_aside_def monad split: prod.splits sum.splits)

section \<open>Reads\<close>

text \<open>
  C10. An identifier in ObjectId format that is the \<^verbatim>\<open>_id\<close> of no reading: when the
  lookup by \<^verbatim>\<open>_id\<close> does not throw, \<open>getFromMongo\<close> returns null and the lookup by
  \<^verbatim>\<open>_id\<close> is the only round trip. The lookup by \<^verbatim>\<open>sensorId\<close> is started exactly when
  the first one throws: \<^verbatim>\<open>new ObjectId(id)\<close> rejects the string, or \<^verbatim>\<open>findOne\<close> fails.
\<close>

theorem getFromMongo_fallback_only_on_throw:
  "(ObjectId_of i = Inr x \<and> \<not> (\<exists>d \<in> set (readings w). matches (ById x) d) \<and>
      \<not> isl (fst (findOne (ById x) w)) \<longrightarrow>
      fst (getFromMongo i w) = Inr JNull \<and>
      new_calls w (snd (getFromMongo i w)) = [FindOne (ById x)])
   \<and> (FindOne (BySensorId i) \<in> set (new_calls w (snd (getFromMongo i w))) \<longleftrightarrow>
        (case ObjectId_of i of Inl e \<Rightarrow> True | Inr x \<Rightarrow> isl (fst (findOne (ById x) w))))"
proof (intro conjI impI)
  assume h: "ObjectId_of i = Inr x \<and> \<not> (\<exists>d \<in> set (readings w). matches (ById x) d) \<and>
      \<not> isl (fst (findOne (ById x) w))"
  then have none: "find (matches (ById x)) (readings w) = None"
    by (intro find_absent) simp
  from h have ok: "next_ok (mongo_plan w)"
    by (simp add: findOne_eq split: if_splits)
  show "fst (getFromMongo i w) = Inr JNull"
    using h none ok by (simp add: getFromMongo_eq findOne_eq)
  show "new_calls w (snd (getFromMongo i w)) = [FindOne (ById x)]"
    using h ok by (simp add: getFromMongo_eq findOne_eq new_calls_def)
next
  show "FindOne (BySensorId i) \<in> set (new_calls w (snd (getFromMongo i w))) \<longleftrightarrow>
        (case ObjectId_of i of Inl e \<Rightarrow> True | Inr x \<Rightarrow> isl (fst (findOne (ById x) w)))"
    by (simp add: new_calls_def getFromMongo_eq findOne_eq split: sum.splits)
qed

lemma ObjectId_of_hex [simp]:
  "ObjectId_of ''64b7f0c2a1d3e4f5a6b7c8d8'' = Inr (ObjectId ''64b7f0c2a1d3e4f5a6b7c8d8'')"
  "ObjectId_of ''64b7f0c2a1d3e4f5a6b7c8d9'' = Inr (ObjectId ''64b7f0c2a1d3e4f5a6b7c8d9'')"
  "ObjectId_of ''s1'' =
     Inl (Error ''input must be a 24 character hex string, 12 byte Uint8Array, or an integer'')"
  by (simp_all add: ObjectId_of_def is_hex_def hex_lower_def)

theorem getFromMongo_fallback_only_on_throw_witness:
  "ObjectId_of ''64b7f0c2a1d3e4f5a6b7c8d8'' = Inr (ObjectId ''64b7f0c2a1d3e4f5a6b7c8d8'') \<and>
   \<not> (\<exists>d \<in> set (readings demo_w). matches (ById (ObjectId ''64b7f0c2a1d3e4f5a6b7c8d8'')) d) \<and>
   \<not> isl (fst (findOne (ById (ObjectId ''64b7f0c2a1d3e4f5a6b7c8d8'')) demo_w)) \<and>
   fst (getFromMongo ''64b7f0c2a1d3e4f5a6b7c8d8'' demo_w) = Inr JNull \<and>
   new_calls demo_w (snd (getFromMongo ''64b7f0c2a1d3e4f5a6b7c8d8'' demo_w)) =
     [FindOne (ById (ObjectId ''64b7f0c2a1d3e4f5a6b7c8d8''))] \<and>
   FindOne (BySensorId ''s1'') \<in> set (new_calls demo_w (snd (getFromMongo ''s1'' demo_w)))"
proof -
  have h: "ObjectId_of ''64b7f0c2a1d3e4f5a6b7c8d8'' = Inr (ObjectId ''64b7f0c2a1d3e4f5a6b7c8d8'') \<and>
     \<not> (\<exists>d \<in> set (readings demo_w). matches (ById (ObjectId ''64b7f0c2a1d3e4f5a6b7c8d8'')) d) \<and>
     \<not> isl (fst (findOne (ById (ObjectId ''64b7f0c2a1d3e4f5a6b7c8d8'')) demo_w))"
    by (simp add: findOne_eq next_ok_def demo)
  show ?thesis
    using h
      getFromMongo_fallback_only_on_throw
        [of "''64b7f0c2a1d3e4f5a6b7c8d8''" "ObjectId ''64b7f0c2a1d3e4f5a6b7c8d8''" demo_w]
      getFromMongo_fallback_only_on_throw [of "''s1''" "ObjectId ''s1''" demo_w]
    by (simp split: sum.splits)
qed

text \<open>
  C9. Read-through and cache-aside leave the same world behind and send the same status
  and the same fields (\<^verbatim>\<open>warm\<close>, \<^verbatim>\<open>data\<close>, or \<^verbatim>\<open>error\<close>); only the \<^verbatim>\<open>strategy\<close> label
  differs.
\<close>

theorem read_through_equals_cache_aside:
  "snd (read_through P i w) = snd (cache_aside P i w) \<and>
   status (fst (read_through P i w)) = status (fst (cache_aside P i w)) \<and>
   (sent (fst (read_through P i w)))(''strategy'' := None) =
     (sent (fst (cache_aside P i w)))(''strategy'' := None)"
  by (auto simp add: read_through_def cache_aside_def monad vocab fun_eq_iff
        split: prod.splits sum.splits)

text \<open>
  C2, as the code has it. A cache-aside read never changes the collection and never
  starts an insert. It starts at most two lookups, and at most one when the first lookup
  does not throw on the way to MongoDB or when the identifier is not in ObjectId format
  (then the lookup by \<^verbatim>\<open>sensorId\<close> is the only one). A read answered \<^verbatim>\<open>warm: true\<close> starts
  no lookup at all.
\<close>

theorem cache_aside_store_access:
  "readings (snd (cache_aside P i w)) = readings w \<and>
   filter is_insert (new_calls w (snd (cache_aside P i w))) = [] \<and>
   length (filter is_lookup (new_calls w (snd (cache_aside P i w)))) \<le> 2 \<and>
   (next_ok (mongo_plan w) \<or> isl (ObjectId_of i) \<longrightarrow>
      length (filter is_lookup (new_calls w (snd (cache_aside P i w)))) \<le> 1) \<and>
   (sent (fst (cache_aside P i w)) ''warm'' = Some (JBool True) \<longrightarrow>
      filter is_lookup (new_calls w (snd (cache_aside P i w))) = [])"
  apply (simp add: cache_aside_eq split: prod.splits sum.splits)
  apply (intro allI impI conjI)
  apply (auto dest!: getCacheJSON_step getFromMongo_step setCacheJSON_step
      simp add: new_calls_def lookups_of_facts lookups_of_frame is_insert_def is_lookup_def
        sent_def failure_def)
  done

lemmas eval = cache_aside_eq getCacheJSON_eq getFromMongo_eq findOne_eq setCacheJSON_eq redis_set_eq
  next_ok_def fail_msg_def live_def key_def delay_at_def vocab demo

theorem cache_aside_store_access_witness:
  "next_ok (mongo_plan demo_w) \<and>
   length (filter is_lookup (new_calls demo_w (snd (cache_aside demo_P demo_id demo_w)))) \<le> 1 \<and>
   sent (fst (cache_aside demo_P demo_id (snd (cache_aside demo_P demo_id demo_w)))) ''warm'' =
     Some (JBool True) \<and>
   filter is_lookup (new_calls (snd (cache_aside demo_P demo_id demo_w))
     (snd (cache_aside demo_P demo_id (snd (cache_aside demo_P demo_id demo_w))))) = []"
proof -
  have h: "next_ok (mongo_plan demo_w)"
    by (simp add: next_ok_def demo_w_def)
  have warm: "sent (fst (cache_aside demo_P demo_id (snd (cache_aside demo_P demo_id demo_w))))
      ''warm'' = Some (JBool True)"
    by (simp add: eval)
  show ?thesis
    using h warm cache_aside_store_access [of demo_P demo_id demo_w]
      cache_aside_store_access [of demo_P demo_id "snd (cache_aside demo_P demo_id demo_w)"]
    by simp
qed

text \<open>
  C2 as stated fails: with a well-formed identifier and MongoDB unreachable for one round
  trip, the lookup by \<^verbatim>\<open>_id\<close> throws and the lookup by \<^verbatim>\<open>sensorId\<close> follows, two lookups
  in one call.
\<close>

theorem cache_aside_two_lookups:
  "\<not> length (filter is_lookup
        (new_calls demo_w_mongo_down (snd (cache_aside demo_P demo_id demo_w_mongo_down)))) \<le> 1"
  by (simp add: demo_w_mongo_down_def eval)

lemma read_through_eq:
  "read_through P i w =
     (case getCacheJSON P (key i) w of
        (Inl e, w1) \<Rightarrow> (failure (message e), w1)
      | (Inr c, w1) \<Rightarrow>
          if truthy c
          then (\<lparr>status = 200, body = JObj [(''strategy'', JStr ''read-through''),
                   (''warm'', JBool True), (''data'', c)]\<rparr>, w1)
          else (case getFromMongo i w1 of
                  (Inl e, w2) \<Rightarrow> (failure (message e), w2)
                | (Inr f, w2) \<Rightarrow>
                    if truthy f
                    then (case setCacheJSON P (key i) f None w2 of
                            (Inl e, w3) \<Rightarrow> (failure (message e), w3)
                          | (Inr u, w3) \<Rightarrow>
                              (\<lparr>status = 200, body = JObj [(''strategy'', JStr ''read-through''),
                                 (''warm'', JBool False), (''data'', f)]\<rparr>, w3))
                    else (\<lparr>status = 200, body = JObj [(''strategy'', JStr ''read-through''),
                            (''warm'', JBool False), (''data'', f)]\<rparr>, w2)))"
  by (simp add: read_through_def monad split: prod.splits sum.splits)

text \<open>The reply of the TTL route, once the cache has been read and perhaps filled.\<close>

lemma ttl_read_eq:
  "ttl_read P ttl i w =
     (case getCacheJSON P (key i) w of
        (Inl e, w1) \<Rightarrow> (failure (message e), w1)
      | (Inr c, w1) \<Rightarrow>
          (case (if truthy c then (Inr c, w1)
                 else (case getFromMongo i w1 of
                         (Inl e, w2) \<Rightarrow> (Inl e, w2)
                       | (Inr f, w2) \<Rightarrow>
                           if truthy f
                           then (case setCacheJSON P (key i) f (Some ttl) w2 of
                                   (Inl e, w3) \<Rightarrow> (Inl e, w3)
                                 | (Inr u, w3) \<Rightarrow> (Inr f, w3))
                           else (Inr f, w2))) of
             (Inl e, w4) \<Rightarrow> (failure (message e), w4)
           | (Inr data, w4) \<Rightarrow>
               (case redis_ttl (key i) w4 of
                  (Inl e, w5) \<Rightarrow> (failure (message e), w5)
                | (Inr ttlLeft, w5) \<Rightarrow>
                    (\<lparr>status = 200, body = JObj [(''strategy'', JStr ''ttl''),
                       (''warm'', JBool (truthy c)), (''ttlLeftSeconds'', JNum ttlLeft),
                       (''data'', data)]\<rparr>, w5))))"
  by (simp add: ttl_read_def monad split: prod.splits sum.splits)

lemma pairI: "fst p = a \<Longrightarrow> snd p = b \<Longrightarrow> p = (a, b)"
  by auto

lemma redis_get_Some:
  "fst (redis_get k w) = Inr (Some raw) \<Longrightarrow>
     next_ok (redis_plan w) \<and> (\<exists>ex. live (elapse w) k = Some (raw, ex))"
  by (auto simp add: redis_get_def await_def redis_roundtrip_eq live_frame split: if_splits)

lemma getCacheJSON_corrupt:
  assumes "fst (redis_get k w) = Inr (Some raw)" and "raw \<noteq> []" and "JSON_parse P raw = Inl e"
  shows "getCacheJSON P k w =
     (Inl e,
      (elapse w)\<lparr>trace := trace w @ [Get k], redis_plan := tl (redis_plan w)\<rparr>)"
  using redis_get_Some [OF assms(1)] assms(2,3) by (auto simp add: getCacheJSON_eq)

text \<open>
  C3, as the code has it. On each of the three read routes, when \<^verbatim>\<open>redis.get\<close> returns a
  non-empty payload that \<^verbatim>\<open>JSON.parse\<close> rejects, the SyntaxError reaches the route's
  \<^verbatim>\<open>catch\<close>: the reply is status 500 with the error message, the read of the cache is the
  only round trip (no lookup in MongoDB), and neither store changes: the world is the one
  before the call but for the trace, the Redis plan and the time the round trip took.
\<close>

theorem corrupt_payload_is_an_error:
  assumes "fst (redis_get (key i) w) = Inr (Some raw)" and "raw \<noteq> []"
    and "JSON_parse P raw = Inl e"
  shows "cache_aside P i w =
           (failure (message e),
            (elapse w)\<lparr>trace := trace w @ [Get (key i)], redis_plan := tl (redis_plan w)\<rparr>) \<and>
         read_through P i w =
           (failure (message e),
            (elapse w)\<lparr>trace := trace w @ [Get (key i)], redis_plan := tl (redis_plan w)\<rparr>) \<and>
         ttl_read P ttl i w =
           (failure (message e),
            (elapse w)\<lparr>trace := trace w @ [Get (key i)], redis_plan := tl (redis_plan w)\<rparr>)"
  by (simp add: cache_aside_eq read_through_eq ttl_read_eq getCacheJSON_corrupt [OF assms])

lemma redis_get_corrupt:
  "fst (redis_get (key demo_id) demo_w_corrupt) = Inr (Some ''{bad'')"
  by (simp add: redis_get_def await_def redis_roundtrip_eq demo_w_corrupt_def next_ok_def live_def
        demo_w_def)

theorem corrupt_payload_is_an_error_witness:
  "fst (redis_get (key demo_id) demo_w_corrupt) = Inr (Some ''{bad'') \<and>
   JSON_parse demo_P ''{bad'' = Inl (Error ''Unexpected token b in JSON at position 1'') \<and>
   status (fst (cache_aside demo_P demo_id demo_w_corrupt)) = 500 \<and>
   status (fst (read_through demo_P demo_id demo_w_corrupt)) = 500 \<and>
   status (fst (ttl_read demo_P (Finite 60) demo_id demo_w_corrupt)) = 500 \<and>
   readings (snd (ttl_read demo_P (Finite 60) demo_id demo_w_corrupt)) = readings demo_w_corrupt \<and>
   redis (snd (ttl_read demo_P (Finite 60) demo_id demo_w_corrupt)) = redis demo_w_corrupt"
proof -
  have p: "JSON_parse demo_P ''{bad'' = Inl (Error ''Unexpected token b in JSON at position 1'')"
    by (simp add: demo)
  have n: "''{bad'' \<noteq> []"
    by simp
  show ?thesis
    using p corrupt_payload_is_an_error [OF redis_get_corrupt n p, of "Finite 60"]
      redis_get_corrupt
    by (simp add: failure_def)
qed

text \<open>
  C3 as stated fails: the reading is in the collection, its key holds a payload that is
  not JSON, and the cache-aside read answers with status 500 after the cache read alone,
  without falling through to the collection.
\<close>

theorem corrupt_payload_not_a_miss:
  "map_of demo_doc ''_id'' = Some (JOid (ObjectId demo_id)) \<and>
   demo_doc \<in> set (readings demo_w_corrupt) \<and>
   fst (cache_aside demo_P demo_id demo_w_corrupt) =
     failure ''Unexpected token b in JSON at position 1'' \<and>
   new_calls demo_w_corrupt (snd (cache_aside demo_P demo_id demo_w_corrupt)) = [Get (key demo_id)]"
  by (simp add: demo_w_corrupt_def eval)

lemma healthy_next:
  assumes "healthy w"
  shows "next_ok (redis_plan w)" and "next_ok (tl (redis_plan w))"
    and "next_ok (tl (tl (redis_plan w)))" and "next_ok (tl (tl (tl (redis_plan w))))"
    and "next_ok (mongo_plan w)" and "next_ok (tl (mongo_plan w))"
  using assms by (simp_all add: healthy_def all_ok_next all_ok_tl)

lemma getCacheJSON_snd:
  "snd (getCacheJSON P k w) =
     (elapse w)\<lparr>trace := trace w @ [Get k], redis_plan := tl (redis_plan w)\<rparr>"
  by (simp add: getCacheJSON_eq)

lemma getFromMongo_snd:
  "snd (getFromMongo i w) =
     ((elapse ^^ length (lookups_of i w)) w)\<lparr>trace := trace w @ lookups_of i w,
       mongo_plan := drop (length (lookups_of i w)) (mongo_plan w)\<rparr>"
  by (rule getFromMongo_step [of i w "fst (getFromMongo i w)"]) simp

lemma getFromMongo_fst_frame:
  "fst (getFromMongo i ((elapse w)\<lparr>trace := t, redis_plan := p\<rparr>)) = fst (getFromMongo i w)"
  by (simp add: getFromMongo_eq findOne_eq split: sum.splits)

lemma lookups_of_single:
  "next_ok (mongo_plan w) \<Longrightarrow> length (lookups_of i w) = Suc 0"
  by (simp add: lookups_of_def split: sum.splits)

text \<open>
  A cache miss followed by a find that needed one lookup, in one equation: the world
  before the cache is filled.
\<close>

lemma miss_then_found:
  assumes "fst (getCacheJSON P (key i) w) = Inr c"
    and "fst (getFromMongo i w) = Inr f" and "next_ok (mongo_plan w)"
  shows "getCacheJSON P (key i) w =
           (Inr c, (elapse w)\<lparr>trace := trace w @ [Get (key i)],
                     redis_plan := tl (redis_plan w)\<rparr>)"
    and "getFromMongo i ((elapse w)\<lparr>trace := trace w @ [Get (key i)],
             redis_plan := tl (redis_plan w)\<rparr>) =
           (Inr f, (elapse (elapse w))\<lparr>trace := trace w @ Get (key i) # lookups_of i w,
                     redis_plan := tl (redis_plan w),
                     mongo_plan := tl (mongo_plan w)\<rparr>)"
proof -
  show "getCacheJSON P (key i) w =
           (Inr c, (elapse w)\<lparr>trace := trace w @ [Get (key i)],
                     redis_plan := tl (redis_plan w)\<rparr>)"
    using assms(1) by (intro pairI) (simp_all add: getCacheJSON_snd)
  show "getFromMongo i ((elapse w)\<lparr>trace := trace w @ [Get (key i)],
             redis_plan := tl (redis_plan w)\<rparr>) =
           (Inr f, (elapse (elapse w))\<lparr>trace := trace w @ Get (key i) # lookups_of i w,
                     redis_plan := tl (redis_plan w),
                     mongo_plan := tl (mongo_plan w)\<rparr>)"
    using assms(2)
    by (intro pairI)
      (simp_all add: getFromMongo_snd getFromMongo_fst_frame lookups_of_single [OF assms(3)]
        drop_Suc)
qed


lemma floor_three_halves [simp]: "\<lfloor>3 / 2 :: rat\<rfloor> = 1"
  by (simp add: floor_eq_iff)



text \<open>
  C8. A cache-aside read in a healthy world. A hit (the cache read yields a truthy value)
  is answered with that value and \<^verbatim>\<open>warm: true\<close>, and changes neither store. A miss that
  finds the reading stores its text under the key without deadline and answers with the
  reading and \<^verbatim>\<open>warm: false\<close>; a miss that finds nothing answers null and
  \<^verbatim>\<open>warm: false\<close> and leaves the cache as it was. After a miss that found the reading, the
  next read of the same identifier is answered \<^verbatim>\<open>warm: true\<close> with the parsed payload,
  and the \<^verbatim>\<open>data\<close> of the two replies have the same JSON text, provided JSON gives the
  text of the reading back when it is parsed and printed again.
\<close>

theorem cache_aside_contract:
  assumes "healthy w"
  shows "(fst (getCacheJSON P (key i) w) = Inr c \<and> truthy c \<longrightarrow>
            fst (cache_aside P i w) =
              \<lparr>status = 200, body = JObj [(''strategy'', JStr ''cache-aside''),
                 (''warm'', JBool True), (''data'', c)]\<rparr> \<and>
            redis (snd (cache_aside P i w)) = redis w \<and>
            readings (snd (cache_aside P i w)) = readings w) \<and>
         (fst (getCacheJSON P (key i) w) = Inr c \<and> \<not> truthy c \<and>
          fst (getFromMongo i w) = Inr (JObj d) \<longrightarrow>
            fst (cache_aside P i w) =
              \<lparr>status = 200, body = JObj [(''strategy'', JStr ''cache-aside''),
                 (''warm'', JBool False), (''data'', JObj d)]\<rparr> \<and>
            redis (snd (cache_aside P i w)) =
              (redis w)(key i \<mapsto> (JSON_stringify P (JObj d), None))) \<and>
         (fst (getCacheJSON P (key i) w) = Inr c \<and> \<not> truthy c \<and>
          fst (getFromMongo i w) = Inr JNull \<longrightarrow>
            fst (cache_aside P i w) =
              \<lparr>status = 200, body = JObj [(''strategy'', JStr ''cache-aside''),
                 (''warm'', JBool False), (''data'', JNull)]\<rparr> \<and>
            redis (snd (cache_aside P i w)) = redis w) \<and>
         (fst (getCacheJSON P (key i) w) = Inr c \<and> \<not> truthy c \<and>
          fst (getFromMongo i w) = Inr (JObj d) \<and>
          JSON_stringify P (JObj d) \<noteq> [] \<and>
          JSON_parse P (JSON_stringify P (JObj d)) = Inr v \<and> truthy v \<and>
          JSON_stringify P v = JSON_stringify P (JObj d) \<longrightarrow>
            fst (cache_aside P i (snd (cache_aside P i w))) =
              \<lparr>status = 200, body = JObj [(''strategy'', JStr ''cache-aside''),
                 (''warm'', JBool True), (''data'', v)]\<rparr> \<and>
            map_option (JSON_stringify P)
                (sent (fst (cache_aside P i (snd (cache_aside P i w)))) ''data'') =
              map_option (JSON_stringify P) (sent (fst (cache_aside P i w)) ''data''))"
proof (intro conjI impI)
  note ok = healthy_next [OF assms]
  {
    assume h: "fst (getCacheJSON P (key i) w) = Inr c \<and> truthy c"
    then have g: "getCacheJSON P (key i) w =
        (Inr c, (elapse w)\<lparr>trace := trace w @ [Get (key i)],
                  redis_plan := tl (redis_plan w)\<rparr>)"
      by (intro pairI) (simp_all add: getCacheJSON_snd)
    show "fst (cache_aside P i w) =
        \<lparr>status = 200, body = JObj [(''strategy'', JStr ''cache-aside''),
           (''warm'', JBool True), (''data'', c)]\<rparr>"
      using h by (simp add: cache_aside_eq g)
    show "redis (snd (cache_aside P i w)) = redis w"
      using h by (simp add: cache_aside_eq g)
    show "readings (snd (cache_aside P i w)) = readings w"
      using h by (simp add: cache_aside_eq g)
  }
  {
    assume h: "fst (getCacheJSON P (key i) w) = Inr c \<and> \<not> truthy c \<and>
      fst (getFromMongo i w) = Inr (JObj d)"
    then have c: "fst (getCacheJSON P (key i) w) = Inr c"
      and f: "fst (getFromMongo i w) = Inr (JObj d)"
      by simp_all
    show "fst (cache_aside P i w) =
        \<lparr>status = 200, body = JObj [(''strategy'', JStr ''cache-aside''),
           (''warm'', JBool False), (''data'', JObj d)]\<rparr>"
      using h ok by (simp add: cache_aside_eq miss_then_found [OF c f ok(5)] setCacheJSON_eq redis_set_eq)
    show "redis (snd (cache_aside P i w)) =
        (redis w)(key i \<mapsto> (JSON_stringify P (JObj d), None))"
      using h ok by (simp add: cache_aside_eq miss_then_found [OF c f ok(5)] setCacheJSON_eq redis_set_eq)
  }
  {
    assume h: "fst (getCacheJSON P (key i) w) = Inr c \<and> \<not> truthy c \<and>
      fst (getFromMongo i w) = Inr JNull"
    then have c: "fst (getCacheJSON P (key i) w) = Inr c"
      and f: "fst (getFromMongo i w) = Inr JNull"
      by simp_all
    show "fst (cache_aside P i w) =
        \<lparr>status = 200, body = JObj [(''strategy'', JStr ''cache-aside''),
           (''warm'', JBool False), (''data'', JNull)]\<rparr>"
      using h by (simp add: cache_aside_eq miss_then_found [OF c f ok(5)])
    show "redis (snd (cache_aside P i w)) = redis w"
      using h by (simp add: cache_aside_eq miss_then_found [OF c f ok(5)])
  }
  {
    assume h: "fst (getCacheJSON P (key i) w) = Inr c \<and> \<not> truthy c \<and>
      fst (getFromMongo i w) = Inr (JObj d) \<and>
      JSON_stringify P (JObj d) \<noteq> [] \<and>
      JSON_parse P (JSON_stringify P (JObj d)) = Inr v \<and> truthy v \<and>
      JSON_stringify P v = JSON_stringify P (JObj d)"
    then have c: "fst (getCacheJSON P (key i) w) = Inr c"
      and f: "fst (getFromMongo i w) = Inr (JObj d)"
      by simp_all
    have first: "snd (cache_aside P i w) =
        (elapse (elapse (elapse w)))\<lparr>trace := trace w @ Get (key i) # lookups_of i w @
             [Set (key i) (JSON_stringify P (JObj d)) None],
          redis_plan := tl (tl (redis_plan w)),
          mongo_plan := tl (mongo_plan w),
          redis := (redis w)(key i \<mapsto> (JSON_stringify P (JObj d), None))\<rparr>"
      using h ok by (simp add: cache_aside_eq miss_then_found [OF c f ok(5)] setCacheJSON_eq redis_set_eq)
    have "fst (cache_aside P i
        ((elapse (elapse (elapse w)))\<lparr>trace := trace w @ Get (key i) # lookups_of i w @
             [Set (key i) (JSON_stringify P (JObj d)) None],
          redis_plan := tl (tl (redis_plan w)),
          mongo_plan := tl (mongo_plan w),
          redis := (redis w)(key i \<mapsto> (JSON_stringify P (JObj d), None))\<rparr>)) =
        \<lparr>status = 200, body = JObj [(''strategy'', JStr ''cache-aside''),
           (''warm'', JBool True), (''data'', v)]\<rparr>"
      using h ok by (simp add: cache_aside_eq getCacheJSON_eq live_def)
    then show second: "fst (cache_aside P i (snd (cache_aside P i w))) =
        \<lparr>status = 200, body = JObj [(''strategy'', JStr ''cache-aside''),
           (''warm'', JBool True), (''data'', v)]\<rparr>"
      by (simp only: first)
    have "fst (cache_aside P i w) =
        \<lparr>status = 200, body = JObj [(''strategy'', JStr ''cache-aside''),
           (''warm'', JBool False), (''data'', JObj d)]\<rparr>"
      using h ok by (simp add: cache_aside_eq miss_then_found [OF c f ok(5)] setCacheJSON_eq redis_set_eq)
    then show "map_option (JSON_stringify P)
          (sent (fst (cache_aside P i (snd (cache_aside P i w)))) ''data'') =
        map_option (JSON_stringify P) (sent (fst (cache_aside P i w)) ''data'')"
      using h by (simp add: second sent_def)
  }
qed

theorem cache_aside_contract_witness:
  "healthy demo_w \<and> fst (getCacheJSON demo_P (key demo_id) demo_w) = Inr JNull \<and>
   \<not> truthy JNull \<and> fst (getFromMongo demo_id demo_w) = Inr (JObj demo_doc) \<and>
   JSON_stringify demo_P (JObj demo_doc) \<noteq> [] \<and>
   JSON_parse demo_P (JSON_stringify demo_P (JObj demo_doc)) = Inr (JObj demo_cached) \<and>
   truthy (JObj demo_cached) \<and>
   JSON_stringify demo_P (JObj demo_cached) = JSON_stringify demo_P (JObj demo_doc) \<and>
   fst (cache_aside demo_P demo_id demo_w) =
     \<lparr>status = 200, body = JObj [(''strategy'', JStr ''cache-aside''),
        (''warm'', JBool False), (''data'', JObj demo_doc)]\<rparr> \<and>
   redis (snd (cache_aside demo_P demo_id demo_w)) =
     (redis demo_w)(key demo_id \<mapsto> (JSON_stringify demo_P (JObj demo_doc), None)) \<and>
   fst (cache_aside demo_P demo_id (snd (cache_aside demo_P demo_id demo_w))) =
     \<lparr>status = 200, body = JObj [(''strategy'', JStr ''cache-aside''),
        (''warm'', JBool True), (''data'', JObj demo_cached)]\<rparr>"
proof -
  have h: "healthy demo_w"
    by (simp add: healthy_def demo_w_def)
  have c: "fst (getCacheJSON demo_P (key demo_id) demo_w) = Inr JNull"
    by (simp add: eval)
  have f: "fst (getFromMongo demo_id demo_w) = Inr (JObj demo_doc)"
    by (simp add: eval)
  have j: "JSON_stringify demo_P (JObj demo_doc) \<noteq> []"
    "JSON_parse demo_P (JSON_stringify demo_P (JObj demo_doc)) = Inr (JObj demo_cached)"
    "JSON_stringify demo_P (JObj demo_cached) = JSON_stringify demo_P (JObj demo_doc)"
    by (simp_all add: demo)
  show ?thesis
    using h c f j
      cache_aside_contract [OF h, of demo_P demo_id JNull demo_doc "JObj demo_cached"]
    by simp
qed

section \<open>Writes\<close>

lemma insertOne_step:
  "insertOne d w = (r, w1) \<Longrightarrow>
     redis w1 = redis w \<and> redis_plan w1 = redis_plan w \<and>
     timers w1 = timers w \<and> console w1 = console w \<and> oid_gen w1 = oid_gen w \<and>
     oid_next w \<le> oid_next w1 \<and>
     mongo_plan w1 = tl (mongo_plan w) \<and> (\<exists>d'. trace w1 = trace w @ [InsertOne d'])"
  by (auto simp add: insertOne_def prepare_def new_ObjectId_def await_def resolve_def
        mongo_roundtrip_eq split: option.splits if_splits)

lemma insertOne_Inl:
  "insertOne d w = (Inl e, w1) \<Longrightarrow> readings w1 = readings w"
  by (auto simp add: insertOne_def prepare_def new_ObjectId_def await_def resolve_def
        mongo_roundtrip_eq split: option.splits if_splits)

lemma insertOne_Inr:
  "insertOne d w = (Inr (i, d'), w1) \<Longrightarrow>
     readings w1 = readings w @ [(''_id'', i) # AList.delete ''_id'' d'] \<and>
     trace w1 = trace w @ [InsertOne d'] \<and> next_ok (mongo_plan w) \<and>
     \<not> (\<exists>e \<in> set (readings w). map_of e ''_id'' = Some i)"
  by (auto simp add: insertOne_def prepare_def new_ObjectId_def await_def resolve_def
        mongo_roundtrip_eq split: option.splits if_splits)

lemma insertOne_fresh:
  "map_of d ''_id'' = None \<Longrightarrow> insertOne d w = (Inr (i, d'), w1) \<Longrightarrow>
     i = JOid (oid_gen w (oid_next w)) \<and> d' = AList.update ''_id'' i d \<and>
     oid_next w1 = Suc (oid_next w)"
  by (auto simp add: insertOne_def prepare_def new_ObjectId_def await_def resolve_def
        mongo_roundtrip_eq split: option.splits if_splits)

lemma write_through_eq:
  "write_through P payload w =
     (case insertOne payload w of
        (Inl e, w1) \<Rightarrow> (failure (message e), w1)
      | (Inr (i, d), w1) \<Rightarrow>
          (case setCacheJSON P (key (id_toString P i)) (JObj (with_id i d)) None w1 of
             (Inl e, w2) \<Rightarrow> (failure (message e), w2)
           | (Inr u, w2) \<Rightarrow>
               (\<lparr>status = 201, body = JObj [(''strategy'', JStr ''write-through''),
                  (''doc'', JObj (with_id i d))]\<rparr>, w2)))"
  by (simp add: write_through_def monad Let_def split: prod.splits sum.splits)

lemma setCacheJSON_plain:
  "setCacheJSON P k v None w = (r, w2) \<Longrightarrow>
     readings w2 = readings w \<and> trace w2 = trace w @ [Set k (JSON_stringify P v) None] \<and>
     (case r of
        Inl e \<Rightarrow> redis w2 = redis w
      | Inr u \<Rightarrow> redis w2 = (redis w)(k \<mapsto> (JSON_stringify P v, None)))"
  by (auto simp add: setCacheJSON_eq redis_set_eq split: if_splits)

lemma update_fresh: "k \<notin> fst ` set al \<Longrightarrow> AList.update k v al = al @ [(k, v)]"
  by (induction al) auto

text \<open>The document the driver leaves behind is the payload with its identifier.\<close>

lemma insertOne_document:
  "insertOne payload w = (Inr (i, d), w1) \<Longrightarrow>
     map_of d = (map_of payload)(''_id'' \<mapsto> i) \<and>
     AList.delete ''_id'' d = AList.delete ''_id'' payload \<and>
     (distinct (map fst payload) \<longrightarrow> distinct (map fst d))"
  by (auto simp add: insertOne_def prepare_def new_ObjectId_def await_def resolve_def
        mongo_roundtrip_eq update_conv' distinct_update delete_update_same
        split: option.splits if_splits)

lemma map_of_spread:
  "map_of (foldl (\<lambda>d (k, v). AList.update k v d) acc fs) = map_of acc ++ map_of (rev fs)"
proof (induction fs arbitrary: acc)
  case Nil
  then show ?case by simp
next
  case (Cons a fs)
  obtain k v where a: "a = (k, v)" by (cases a)
  have "map_of (foldl (\<lambda>d (k, v). AList.update k v d) (AList.update k v acc) fs) =
      (map_of acc)(k \<mapsto> v) ++ map_of (rev fs)"
    by (simp only: Cons.IH update_conv')
  also have "\<dots> = map_of acc ++ map_of (rev ((k, v) # fs))"
    by (simp add: map_add_upd_left map_add_assoc [symmetric])
  finally show ?case
    by (simp add: a)
qed

lemma map_of_rev_distinct: "distinct (map fst xs) \<Longrightarrow> map_of (rev xs) = map_of xs"
  using map_of_inject_set [of "rev xs" xs] by (simp add: rev_map [symmetric])

lemma map_of_with_id:
  "distinct (map fst fs) \<Longrightarrow> map_of (with_id i fs) = [''_id'' \<mapsto> i] ++ map_of fs"
  by (simp add: with_id_def map_of_spread map_of_rev_distinct)

text \<open>
  C1. A write-through call. If \<^verbatim>\<open>insertOne\<close> throws, the reply has status 500, carries the
  error's message under \<^verbatim>\<open>error\<close> and no \<^verbatim>\<open>doc\<close>, the cache and the collection are as
  before and no write to the cache was started. If the insert succeeds and the cache
  populate throws, the reply has status 500, carries that error's message and no
  \<^verbatim>\<open>doc\<close>, and the inserted reading is in the collection. If both succeed the reply has
  status 201 and carries the reading under \<^verbatim>\<open>doc\<close>; the payload being an object (no field
  twice), the reading has the inserted identifier under \<^verbatim>\<open>_id\<close> and apart from that
  exactly the fields of the payload; it is in the collection and, as text,
  under its key in the cache. A reply of status 201 is sent only in that case.
\<close>

theorem write_through_all_or_error:
  "(insertOne payload w = (Inl e, w1) \<longrightarrow>
      write_through P payload w = (failure (message e), w1) \<and>
      status (fst (write_through P payload w)) = 500 \<and>
      sent (fst (write_through P payload w)) ''error'' = Some (JStr (message e)) \<and>
      sent (fst (write_through P payload w)) ''doc'' = None \<and>
      redis w1 = redis w \<and> readings w1 = readings w \<and>
      filter is_cache_write (new_calls w w1) = []) \<and>
   (insertOne payload w = (Inr (i, d), w1) \<and>
    setCacheJSON P (key (id_toString P i)) (JObj (with_id i d)) None w1 = (Inl e, w2) \<longrightarrow>
      write_through P payload w = (failure (message e), w2) \<and>
      status (fst (write_through P payload w)) = 500 \<and>
      sent (fst (write_through P payload w)) ''error'' = Some (JStr (message e)) \<and>
      sent (fst (write_through P payload w)) ''doc'' = None \<and>
      (''_id'', i) # AList.delete ''_id'' d \<in> set (readings w2) \<and>
      (''_id'', i) # AList.delete ''_id'' payload \<in> set (readings w2)) \<and>
   (insertOne payload w = (Inr (i, d), w1) \<and>
    setCacheJSON P (key (id_toString P i)) (JObj (with_id i d)) None w1 = (Inr u, w2) \<longrightarrow>
      write_through P payload w =
        (\<lparr>status = 201, body = JObj [(''strategy'', JStr ''write-through''),
           (''doc'', JObj (with_id i d))]\<rparr>, w2) \<and>
      sent (fst (write_through P payload w)) ''doc'' = Some (JObj (with_id i d)) \<and>
      sent (fst (write_through P payload w)) ''error'' = None \<and>
      (distinct (map fst payload) \<longrightarrow>
         map_of (with_id i d) = (map_of payload)(''_id'' \<mapsto> i)) \<and>
      (''_id'', i) # AList.delete ''_id'' d \<in> set (readings w2) \<and>
      (''_id'', i) # AList.delete ''_id'' payload \<in> set (readings w2) \<and>
      redis w2 (key (id_toString P i)) = Some (JSON_stringify P (JObj (with_id i d)), None)) \<and>
   (status (fst (write_through P payload w)) = 201 \<longrightarrow>
      (\<exists>i d w1. insertOne payload w = (Inr (i, d), w1) \<and>
         setCacheJSON P (key (id_toString P i)) (JObj (with_id i d)) None w1 =
           (Inr (), snd (write_through P payload w))))"
proof (intro conjI impI)
  {
    assume h: "insertOne payload w = (Inl e, w1)"
    show "write_through P payload w = (failure (message e), w1)"
      by (simp add: write_through_eq h)
    show "status (fst (write_through P payload w)) = 500"
      by (simp add: write_through_eq h failure_def)
    show "sent (fst (write_through P payload w)) ''error'' = Some (JStr (message e))"
      by (simp add: write_through_eq h failure_def sent_def)
    show "sent (fst (write_through P payload w)) ''doc'' = None"
      by (simp add: write_through_eq h failure_def sent_def)
    show "redis w1 = redis w"
      using insertOne_step [OF h] by simp
    show "readings w1 = readings w"
      using insertOne_Inl [OF h] by simp
    show "filter is_cache_write (new_calls w w1) = []"
      using insertOne_step [OF h] by (auto simp add: new_calls_def is_cache_write_def)
  }
  {
    assume h: "insertOne payload w = (Inr (i, d), w1) \<and>
      setCacheJSON P (key (id_toString P i)) (JObj (with_id i d)) None w1 = (Inl e, w2)"
    show "write_through P payload w = (failure (message e), w2)"
      using h by (simp add: write_through_eq)
    show "status (fst (write_through P payload w)) = 500"
      using h by (simp add: write_through_eq failure_def)
    show "sent (fst (write_through P payload w)) ''error'' = Some (JStr (message e))"
      using h by (simp add: write_through_eq failure_def sent_def)
    show "sent (fst (write_through P payload w)) ''doc'' = None"
      using h by (simp add: write_through_eq failure_def sent_def)
    show r: "(''_id'', i) # AList.delete ''_id'' d \<in> set (readings w2)"
      using h insertOne_Inr [of payload w i d w1]
        setCacheJSON_plain [of P "key (id_toString P i)" "JObj (with_id i d)" w1 "Inl e" w2]
      by simp
    show "(''_id'', i) # AList.delete ''_id'' payload \<in> set (readings w2)"
      using r h insertOne_document [of payload w i d w1] by simp
  }
  {
    assume h: "insertOne payload w = (Inr (i, d), w1) \<and>
      setCacheJSON P (key (id_toString P i)) (JObj (with_id i d)) None w1 = (Inr u, w2)"
    have doc: "map_of d = (map_of payload)(''_id'' \<mapsto> i)"
      using h insertOne_document [of payload w i d w1] by simp
    show "write_through P payload w =
        (\<lparr>status = 201, body = JObj [(''strategy'', JStr ''write-through''),
           (''doc'', JObj (with_id i d))]\<rparr>, w2)"
      using h by (simp add: write_through_eq)
    show "sent (fst (write_through P payload w)) ''doc'' = Some (JObj (with_id i d))"
      using h by (simp add: write_through_eq sent_def)
    show "sent (fst (write_through P payload w)) ''error'' = None"
      using h by (simp add: write_through_eq sent_def)
    {
      assume "distinct (map fst payload)"
      then have "distinct (map fst d)"
        using h insertOne_document [of payload w i d w1] by simp
      then show "map_of (with_id i d) = (map_of payload)(''_id'' \<mapsto> i)"
        by (auto simp add: map_of_with_id doc map_add_def fun_eq_iff split: option.splits)
    }
    show r: "(''_id'', i) # AList.delete ''_id'' d \<in> set (readings w2)"
      using h insertOne_Inr [of payload w i d w1]
        setCacheJSON_plain [of P "key (id_toString P i)" "JObj (with_id i d)" w1 "Inr u" w2]
      by simp
    show "(''_id'', i) # AList.delete ''_id'' payload \<in> set (readings w2)"
      using r h insertOne_document [of payload w i d w1] by simp
    show "redis w2 (key (id_toString P i)) = Some (JSON_stringify P (JObj (with_id i d)), None)"
      using h
        setCacheJSON_plain [of P "key (id_toString P i)" "JObj (with_id i d)" w1 "Inr u" w2]
      by simp
  }
  {
    assume h: "status (fst (write_through P payload w)) = 201"
    then show "\<exists>i d w1. insertOne payload w = (Inr (i, d), w1) \<and>
        setCacheJSON P (key (id_toString P i)) (JObj (with_id i d)) None w1 =
          (Inr (), snd (write_through P payload w))"
      by (auto simp add: write_through_eq failure_def split: prod.splits sum.splits)
  }
qed


lemmas eval_insert = insertOne_def prepare_def new_ObjectId_def await_def resolve_def
  mongo_roundtrip_eq setCacheJSON_eq redis_set_eq next_ok_def fail_msg_def id_toString_def
  with_id_def key_def demo

theorem write_through_all_or_error_witness:
  "insertOne demo_payload demo_w_mongo_down =
     (Inl (Error ''connection closed''), snd (insertOne demo_payload demo_w_mongo_down)) \<and>
   write_through demo_P demo_payload demo_w_mongo_down =
     (failure ''connection closed'', snd (insertOne demo_payload demo_w_mongo_down)) \<and>
   status (fst (write_through demo_P demo_payload demo_w_mongo_down)) = 500 \<and>
   sent (fst (write_through demo_P demo_payload demo_w_mongo_down)) ''error'' =
     Some (JStr ''connection closed'') \<and>
   sent (fst (write_through demo_P demo_payload demo_w_mongo_down)) ''doc'' = None \<and>
   redis (snd (insertOne demo_payload demo_w_mongo_down)) = redis demo_w_mongo_down \<and>
   insertOne demo_payload demo_w_redis_down =
     (Inr (JOid (demo_gen 0), demo_payload @ [(''_id'', JOid (demo_gen 0))]),
      snd (insertOne demo_payload demo_w_redis_down)) \<and>
   fst (write_through demo_P demo_payload demo_w_redis_down) = failure ''connection closed'' \<and>
   status (fst (write_through demo_P demo_payload demo_w_redis_down)) = 500 \<and>
   sent (fst (write_through demo_P demo_payload demo_w_redis_down)) ''error'' =
     Some (JStr ''connection closed'') \<and>
   (''_id'', JOid (demo_gen 0)) # demo_payload
     \<in> set (readings (snd (write_through demo_P demo_payload demo_w_redis_down))) \<and>
   status (fst (write_through demo_P demo_payload demo_w)) = 201 \<and>
   distinct (map fst demo_payload) \<and>
   sent (fst (write_through demo_P demo_payload demo_w)) ''doc'' =
     Some (JObj [(''_id'', JOid (demo_gen 0)), (''sensorId'', JStr ''s2'')]) \<and>
   map_of [(''_id'', JOid (demo_gen 0)), (''sensorId'', JStr ''s2'')] =
     (map_of demo_payload)(''_id'' \<mapsto> JOid (demo_gen 0)) \<and>
   (''_id'', JOid (demo_gen 0)) # demo_payload
     \<in> set (readings (snd (write_through demo_P demo_payload demo_w)))"
proof -
  let ?i = "JOid (demo_gen 0)"
  let ?d = "demo_payload @ [(''_id'', ?i)]"
  have a: "insertOne demo_payload demo_w_mongo_down =
      (Inl (Error ''connection closed''), snd (insertOne demo_payload demo_w_mongo_down))"
    by (intro pairI) (simp_all add: demo_w_mongo_down_def eval_insert)
  have b: "insertOne demo_payload demo_w_redis_down =
      (Inr (?i, ?d), snd (insertOne demo_payload demo_w_redis_down))"
    by (intro pairI) (simp_all add: demo_w_redis_down_def eval_insert)
  have b': "setCacheJSON demo_P (key (id_toString demo_P ?i)) (JObj (with_id ?i ?d)) None
        (snd (insertOne demo_payload demo_w_redis_down)) =
      (Inl (Error ''connection closed''),
       snd (setCacheJSON demo_P (key (id_toString demo_P ?i)) (JObj (with_id ?i ?d)) None
         (snd (insertOne demo_payload demo_w_redis_down))))"
    by (intro pairI) (simp_all add: demo_w_redis_down_def eval_insert)
  have c: "insertOne demo_payload demo_w = (Inr (?i, ?d), snd (insertOne demo_payload demo_w))"
    by (intro pairI) (simp_all add: eval_insert)
  have c': "setCacheJSON demo_P (key (id_toString demo_P ?i)) (JObj (with_id ?i ?d)) None
        (snd (insertOne demo_payload demo_w)) =
      (Inr (),
       snd (setCacheJSON demo_P (key (id_toString demo_P ?i)) (JObj (with_id ?i ?d)) None
         (snd (insertOne demo_payload demo_w))))"
    by (intro pairI) (simp_all add: eval_insert)
  have del: "AList.delete ''_id'' ?d = demo_payload"
    by (simp add: demo_payload_def)
  have dist: "distinct (map fst demo_payload)"
    by (simp add: demo_payload_def)
  have doc: "with_id ?i ?d = [(''_id'', ?i), (''sensorId'', JStr ''s2'')]"
    by (simp add: with_id_def demo_payload_def)
  have r1: "write_through demo_P demo_payload demo_w_mongo_down =
      (failure (message (Error ''connection closed'')),
       snd (insertOne demo_payload demo_w_mongo_down)) \<and>
    status (fst (write_through demo_P demo_payload demo_w_mongo_down)) = 500 \<and>
    sent (fst (write_through demo_P demo_payload demo_w_mongo_down)) ''error'' =
      Some (JStr (message (Error ''connection closed''))) \<and>
    sent (fst (write_through demo_P demo_payload demo_w_mongo_down)) ''doc'' = None \<and>
    redis (snd (insertOne demo_payload demo_w_mongo_down)) = redis demo_w_mongo_down"
    using a write_through_all_or_error [where payload = demo_payload
        and w = demo_w_mongo_down and e = "Error ''connection closed''"
        and ?w1.0 = "snd (insertOne demo_payload demo_w_mongo_down)" and P = demo_P]
    by blast
  have r2: "write_through demo_P demo_payload demo_w_redis_down =
      (failure (message (Error ''connection closed'')),
       snd (setCacheJSON demo_P (key (id_toString demo_P ?i))
          (JObj (with_id ?i ?d)) None (snd (insertOne demo_payload demo_w_redis_down)))) \<and>
    status (fst (write_through demo_P demo_payload demo_w_redis_down)) = 500 \<and>
    sent (fst (write_through demo_P demo_payload demo_w_redis_down)) ''error'' =
      Some (JStr (message (Error ''connection closed''))) \<and>
    (''_id'', ?i) # AList.delete ''_id'' ?d
      \<in> set (readings (snd (setCacheJSON demo_P (key (id_toString demo_P ?i))
          (JObj (with_id ?i ?d)) None (snd (insertOne demo_payload demo_w_redis_down)))))"
    using b b' write_through_all_or_error [where payload = demo_payload
        and w = demo_w_redis_down and e = "Error ''connection closed''"
        and ?w1.0 = "snd (insertOne demo_payload demo_w_redis_down)" and P = demo_P
        and i = ?i and d = ?d
        and ?w2.0 = "snd (setCacheJSON demo_P (key (id_toString demo_P ?i))
          (JObj (with_id ?i ?d)) None (snd (insertOne demo_payload demo_w_redis_down)))"]
    by blast
  have r3: "write_through demo_P demo_payload demo_w =
      (\<lparr>status = 201, body = JObj [(''strategy'', JStr ''write-through''),
         (''doc'', JObj (with_id ?i ?d))]\<rparr>,
       snd (setCacheJSON demo_P (key (id_toString demo_P ?i))
          (JObj (with_id ?i ?d)) None (snd (insertOne demo_payload demo_w)))) \<and>
    sent (fst (write_through demo_P demo_payload demo_w)) ''doc'' =
      Some (JObj (with_id ?i ?d)) \<and>
    map_of (with_id ?i ?d) = (map_of demo_payload)(''_id'' \<mapsto> ?i) \<and>
    (''_id'', ?i) # AList.delete ''_id'' ?d
      \<in> set (readings (snd (setCacheJSON demo_P (key (id_toString demo_P ?i))
          (JObj (with_id ?i ?d)) None (snd (insertOne demo_payload demo_w)))))"
    using c c' dist write_through_all_or_error [where payload = demo_payload
        and w = demo_w and ?w1.0 = "snd (insertOne demo_payload demo_w)" and P = demo_P
        and i = ?i and d = ?d and u = "()"
        and ?w2.0 = "snd (setCacheJSON demo_P (key (id_toString demo_P ?i))
          (JObj (with_id ?i ?d)) None (snd (insertOne demo_payload demo_w)))"]
    by blast
  show ?thesis
    using a b r1 [unfolded error.sel] r2 [unfolded del error.sel] r3 [unfolded doc del] dist
    by (simp add: failure_def sent_def)
qed

section \<open>Write-behind\<close>

lemma distinct_with_id: "distinct (map fst (with_id i fs))"
proof -
  have "distinct (map fst acc) \<Longrightarrow>
      distinct (map fst (foldl (\<lambda>d (k, v). AList.update k v d) acc fs))" for acc
    by (induction fs arbitrary: acc) (auto simp add: distinct_update)
  then show ?thesis
    by (simp add: with_id_def)
qed

lemma foldl_update_fresh:
  "distinct (map fst (acc @ fs)) \<Longrightarrow> foldl (\<lambda>d (k, v). AList.update k v d) acc fs = acc @ fs"
proof (induction fs arbitrary: acc)
  case Nil
  then show ?case by simp
next
  case (Cons a fs)
  obtain k v where a: "a = (k, v)" by (cases a)
  from Cons.prems a have "k \<notin> fst ` set acc"
    by auto
  then have u: "AList.update k v acc = acc @ [(k, v)]"
    by (rule update_fresh)
  from Cons.prems a have "distinct (map fst ((acc @ [(k, v)]) @ fs))"
    by simp
  from Cons.IH [OF this] show ?case
    by (simp add: a u)
qed

text \<open>What \<^verbatim>\<open>{ _id: insertedId, ...rest }\<close> is once the driver has written the identifier
  into \<^verbatim>\<open>rest\<close>.\<close>

lemma with_id_persisted:
  assumes "distinct (map fst rest)" and "''_id'' \<notin> fst ` set rest"
  shows "with_id i (AList.update ''_id'' i rest) = (''_id'', i) # rest"
proof -
  have d: "distinct (map fst ([(''_id'', i)] @ rest))"
    using assms by auto
  have "with_id i (AList.update ''_id'' i rest) = with_id i (rest @ [(''_id'', i)])"
    using assms(2) by (simp add: update_fresh)
  also have "\<dots> = AList.update ''_id'' i (foldl (\<lambda>d (k, v). AList.update k v d) [(''_id'', i)] rest)"
    by (simp add: with_id_def)
  also have "\<dots> = AList.update ''_id'' i ((''_id'', i) # rest)"
    using foldl_update_fresh [OF d] by simp
  also have "\<dots> = (''_id'', i) # rest"
    by simp
  finally show ?thesis .
qed

lemma rest_of_with_id:
  "distinct (map fst (AList.delete ''_id'' (with_id i fs)))"
  "''_id'' \<notin> fst ` set (AList.delete ''_id'' (with_id i fs))"
  "map_of (AList.delete ''_id'' (with_id i fs)) ''_id'' = None"
  by (simp_all add: distinct_delete distinct_with_id delete_notin_dom map_of_eq_None_iff)

lemma flush_try_eq:
  "flush_try P (t, doc) w =
     (case insertOne (AList.delete ''_id'' doc) w of
        (Inl e, w1) \<Rightarrow> (Inl e, w1)
      | (Inr (i, rest), w1) \<Rightarrow>
          (case redis_del (key (oid_toString t)) w1 of
             (Inl e, w2) \<Rightarrow> (Inl e, w2)
           | (Inr u, w2) \<Rightarrow>
               (case setCacheJSON P (key (id_toString P i)) (JObj (with_id i rest)) None w2 of
                  (Inl e, w3) \<Rightarrow> (Inl e, w3)
                | (Inr u, w3) \<Rightarrow>
                    (Inr (), w3\<lparr>console := console w3 @
                       [''write-behind persisted: '' @ id_toString P i]\<rparr>))))"
  by (simp add: flush_try_def await_def console_log_def Let_def split: prod.splits sum.splits)

lemma flush_eq:
  "flush P t w =
     (case flush_try P t w of
        (Inl e, w1) \<Rightarrow> w1\<lparr>console := console w1 @ [''write-behind flush failed: '' @ message e]\<rparr>
      | (Inr u, w1) \<Rightarrow> w1)"
  by (simp add: flush_def try_catch_def console_log_def split: prod.splits sum.splits)

lemma write_behind_eq:
  "write_behind P payload w =
     (case setCacheJSON P (key (oid_toString (oid_gen w (oid_next w))))
             (JObj (with_id (JOid (oid_gen w (oid_next w))) payload)) None
             (w\<lparr>oid_next := Suc (oid_next w)\<rparr>) of
        (Inl e, w1) \<Rightarrow> (failure (message e), w1)
      | (Inr u, w1) \<Rightarrow>
          (\<lparr>status = 202, body = JObj [(''strategy'', JStr ''write-behind''),
             (''queued'', JBool True),
             (''doc'', JObj (with_id (JOid (oid_gen w (oid_next w))) payload))]\<rparr>,
           w1\<lparr>timers := timers w1 @
             [(oid_gen w (oid_next w), with_id (JOid (oid_gen w (oid_next w))) payload)]\<rparr>))"
  by (simp add: write_behind_def monad new_ObjectId_def setTimeout_def Let_def
        split: prod.splits sum.splits)

text \<open>
  C4. A flush whose \<^verbatim>\<open>insertOne\<close> throws: the callback logs the error and ends. The cache
  is as before (the provisional entry is not removed), the collection is as before, no
  timer is added and the insert was tried once, so nothing retries. The reply of the
  write-behind call does not depend on what MongoDB will do. End to end: when the cache
  accepts the provisional entry and MongoDB then rejects the insert, the call is answered
  with status 202 and, after the timer has run, the provisional entry is still in the
  cache without deadline, the collection is unchanged and no timer is pending.
\<close>

theorem flush_failure_is_silent:
  "(insertOne (AList.delete ''_id'' doc) w = (Inl e, w1) \<longrightarrow>
      flush P (t, doc) w =
        w1\<lparr>console := console w1 @ [''write-behind flush failed: '' @ message e]\<rparr> \<and>
      redis (flush P (t, doc) w) = redis w \<and>
      readings (flush P (t, doc) w) = readings w \<and>
      timers (flush P (t, doc) w) = timers w \<and>
      length (filter is_insert (new_calls w (flush P (t, doc) w))) = 1) \<and>
   fst (write_behind P payload (w\<lparr>mongo_plan := p\<rparr>)) = fst (write_behind P payload w) \<and>
   (timers w = [] \<and> next_ok (redis_plan w) \<and> \<not> next_ok (mongo_plan w) \<longrightarrow>
      status (fst (write_behind P payload w)) = 202 \<and>
      redis (run_timer P (snd (write_behind P payload w)))
          (key (oid_toString (oid_gen w (oid_next w)))) =
        Some (JSON_stringify P (JObj (with_id (JOid (oid_gen w (oid_next w))) payload)), None) \<and>
      readings (run_timer P (snd (write_behind P payload w))) = readings w \<and>
      timers (run_timer P (snd (write_behind P payload w))) = [])"
proof (intro conjI impI)
  {
    assume h: "insertOne (AList.delete ''_id'' doc) w = (Inl e, w1)"
    show f: "flush P (t, doc) w =
        w1\<lparr>console := console w1 @ [''write-behind flush failed: '' @ message e]\<rparr>"
      by (simp add: flush_eq flush_try_eq h)
    show "redis (flush P (t, doc) w) = redis w"
      using insertOne_step [OF h] by (simp add: f)
    show "readings (flush P (t, doc) w) = readings w"
      using insertOne_Inl [OF h] by (simp add: f)
    show "timers (flush P (t, doc) w) = timers w"
      using insertOne_step [OF h] by (simp add: f)
    show "length (filter is_insert (new_calls w (flush P (t, doc) w))) = 1"
      using insertOne_step [OF h] by (auto simp add: f new_calls_def is_insert_def)
  }
  show "fst (write_behind P payload (w\<lparr>mongo_plan := p\<rparr>)) = fst (write_behind P payload w)"
    by (simp add: write_behind_eq setCacheJSON_eq redis_set_eq)
  {
    assume h: "timers w = [] \<and> next_ok (redis_plan w) \<and> \<not> next_ok (mongo_plan w)"
    let ?t = "oid_gen w (oid_next w)"
    let ?doc = "with_id (JOid ?t) payload"
    let ?w1 = "(elapse w)\<lparr>oid_next := Suc (oid_next w),
                 trace := trace w @ [Set (key (oid_toString ?t)) (JSON_stringify P (JObj ?doc)) None],
                 redis_plan := tl (redis_plan w),
                 redis := (redis w)(key (oid_toString ?t) \<mapsto> (JSON_stringify P (JObj ?doc), None))\<rparr>"
    have wb: "write_behind P payload w =
        (\<lparr>status = 202, body = JObj [(''strategy'', JStr ''write-behind''),
           (''queued'', JBool True), (''doc'', JObj ?doc)]\<rparr>,
         ?w1\<lparr>timers := [(?t, ?doc)]\<rparr>)"
      using h by (simp add: write_behind_eq setCacheJSON_eq redis_set_eq)
    obtain r w2 where ins: "insertOne (AList.delete ''_id'' ?doc) (?w1\<lparr>timers := []\<rparr>) = (r, w2)"
      by fastforce
    have "\<not> next_ok (mongo_plan (?w1\<lparr>timers := []\<rparr>))"
      using h by simp
    then obtain e where r: "r = Inl e"
      using ins insertOne_Inr [of "AList.delete ''_id'' ?doc" "?w1\<lparr>timers := []\<rparr>" _ _ w2]
      by (cases r) auto
    have rt: "run_timer P (snd (write_behind P payload w)) =
        w2\<lparr>console := console w2 @ [''write-behind flush failed: '' @ message e]\<rparr>"
      using ins r by (simp add: wb run_timer_def flush_eq flush_try_eq)
    show "status (fst (write_behind P payload w)) = 202"
      by (simp add: wb)
    show "redis (run_timer P (snd (write_behind P payload w))) (key (oid_toString ?t)) =
        Some (JSON_stringify P (JObj ?doc), None)"
      using insertOne_step [OF ins] by (simp add: rt)
    show "readings (run_timer P (snd (write_behind P payload w))) = readings w"
      using insertOne_Inl [OF ins [unfolded r]] by (simp add: rt)
    show "timers (run_timer P (snd (write_behind P payload w))) = []"
      using insertOne_step [OF ins] by (simp add: rt)
  }
qed


theorem flush_failure_is_silent_witness:
  "timers demo_w_mongo_down = [] \<and> next_ok (redis_plan demo_w_mongo_down) \<and>
   \<not> next_ok (mongo_plan demo_w_mongo_down) \<and>
   status (fst (write_behind demo_P demo_payload demo_w_mongo_down)) = 202 \<and>
   redis (run_timer demo_P (snd (write_behind demo_P demo_payload demo_w_mongo_down)))
       (key (oid_toString (demo_gen 0))) =
     Some (JSON_stringify demo_P (JObj ((''_id'', JOid (demo_gen 0)) # demo_payload)), None) \<and>
   readings (run_timer demo_P (snd (write_behind demo_P demo_payload demo_w_mongo_down))) =
     [demo_doc] \<and>
   timers (run_timer demo_P (snd (write_behind demo_P demo_payload demo_w_mongo_down))) = [] \<and>
   insertOne (AList.delete ''_id'' ((''_id'', JOid (demo_gen 0)) # demo_payload))
       demo_w_mongo_down =
     (Inl (Error ''connection closed''),
      snd (insertOne (AList.delete ''_id'' ((''_id'', JOid (demo_gen 0)) # demo_payload))
        demo_w_mongo_down)) \<and>
   redis (flush demo_P (demo_gen 0, (''_id'', JOid (demo_gen 0)) # demo_payload)
     demo_w_mongo_down) = redis demo_w_mongo_down"
proof -
  let ?doc = "(''_id'', JOid (demo_gen 0)) # demo_payload"
  have h: "timers demo_w_mongo_down = [] \<and> next_ok (redis_plan demo_w_mongo_down) \<and>
      \<not> next_ok (mongo_plan demo_w_mongo_down)"
    by (simp add: demo_w_mongo_down_def demo_w_def next_ok_def)
  have d: "with_id (JOid (demo_gen 0)) demo_payload = ?doc"
    by (simp add: with_id_def demo_payload_def)
  have g: "oid_gen demo_w_mongo_down (oid_next demo_w_mongo_down) = demo_gen 0"
    "readings demo_w_mongo_down = [demo_doc]"
    by (simp_all add: demo_w_mongo_down_def demo_w_def)
  have i: "insertOne (AList.delete ''_id'' ?doc) demo_w_mongo_down =
      (Inl (Error ''connection closed''),
       snd (insertOne (AList.delete ''_id'' ?doc) demo_w_mongo_down))"
    by (intro pairI) (simp_all add: demo_w_mongo_down_def eval_insert)
  note T = flush_failure_is_silent [where w = demo_w_mongo_down and P = demo_P
        and payload = demo_payload and doc = ?doc and t = "demo_gen 0"
        and e = "Error ''connection closed''"
        and ?w1.0 = "snd (insertOne (AList.delete ''_id'' ?doc) demo_w_mongo_down)"]
  from T i have a: "redis (flush demo_P (demo_gen 0, ?doc) demo_w_mongo_down) =
      redis demo_w_mongo_down"
    by blast
  from T h have "status (fst (write_behind demo_P demo_payload demo_w_mongo_down)) = 202 \<and>
      redis (run_timer demo_P (snd (write_behind demo_P demo_payload demo_w_mongo_down)))
          (key (oid_toString (oid_gen demo_w_mongo_down (oid_next demo_w_mongo_down)))) =
        Some (JSON_stringify demo_P (JObj (with_id
          (JOid (oid_gen demo_w_mongo_down (oid_next demo_w_mongo_down))) demo_payload)), None) \<and>
      readings (run_timer demo_P (snd (write_behind demo_P demo_payload demo_w_mongo_down))) =
        readings demo_w_mongo_down \<and>
      timers (run_timer demo_P (snd (write_behind demo_P demo_payload demo_w_mongo_down))) = []"
    by blast
  then have b: "status (fst (write_behind demo_P demo_payload demo_w_mongo_down)) = 202 \<and>
      redis (run_timer demo_P (snd (write_behind demo_P demo_payload demo_w_mongo_down)))
          (key (oid_toString (demo_gen 0))) =
        Some (JSON_stringify demo_P (JObj ?doc), None) \<and>
      readings (run_timer demo_P (snd (write_behind demo_P demo_payload demo_w_mongo_down))) =
        [demo_doc] \<and>
      timers (run_timer demo_P (snd (write_behind demo_P demo_payload demo_w_mongo_down))) = []"
    by (simp only: d g)
  from h i a b show ?thesis
    by blast
qed

text \<open>
  C5. A write-behind call whose cache populate succeeds is answered with status 202,
  \<^verbatim>\<open>queued: true\<close> and the provisional reading, after the reading's text has been stored
  under the provisional key without deadline; the flush is left with the timers. A flush
  that succeeds, run in any later world in which the generator's next identifier is not
  the provisional one: the collection has gained the provisional reading's fields without
  its \<^verbatim>\<open>_id\<close> under the new identifier, the provisional key is gone from the cache, and the
  key of the new identifier holds the text of the persisted reading, without deadline.
  For a payload with distinct field names and no \<^verbatim>\<open>_id\<close> of its own, the provisional
  reading is the payload behind the provisional \<^verbatim>\<open>_id\<close>, and its fields without \<^verbatim>\<open>_id\<close>
  are the payload.
\<close>

theorem write_behind_then_flush:
  "(next_ok (redis_plan w) \<longrightarrow>
      fst (write_behind P payload w) =
        \<lparr>status = 202, body = JObj [(''strategy'', JStr ''write-behind''),
           (''queued'', JBool True),
           (''doc'', JObj (with_id (JOid (oid_gen w (oid_next w))) payload))]\<rparr> \<and>
      redis (snd (write_behind P payload w)) =
        (redis w)(key (oid_toString (oid_gen w (oid_next w))) \<mapsto>
          (JSON_stringify P (JObj (with_id (JOid (oid_gen w (oid_next w))) payload)), None)) \<and>
      timers (snd (write_behind P payload w)) =
        timers w @ [(oid_gen w (oid_next w), with_id (JOid (oid_gen w (oid_next w))) payload)]) \<and>
   (fst (flush_try P (t, with_id (JOid t) payload) w) = Inr () \<and> oid_gen w (oid_next w) \<noteq> t \<longrightarrow>
      readings (flush P (t, with_id (JOid t) payload) w) =
        readings w @ [(''_id'', JOid (oid_gen w (oid_next w))) #
                      AList.delete ''_id'' (with_id (JOid t) payload)] \<and>
      redis (flush P (t, with_id (JOid t) payload) w) =
        (redis w)(key (oid_toString t) := None,
          key (oid_toString (oid_gen w (oid_next w))) \<mapsto>
            (JSON_stringify P (JObj ((''_id'', JOid (oid_gen w (oid_next w))) #
               AList.delete ''_id'' (with_id (JOid t) payload))), None)) \<and>
      redis (flush P (t, with_id (JOid t) payload) w) (key (oid_toString t)) = None) \<and>
   (distinct (map fst payload) \<and> ''_id'' \<notin> fst ` set payload \<longrightarrow>
      with_id (JOid t) payload = (''_id'', JOid t) # payload \<and>
      AList.delete ''_id'' (with_id (JOid t) payload) = payload)"
proof (intro conjI impI)
  {
    assume h: "distinct (map fst payload) \<and> ''_id'' \<notin> fst ` set payload"
    then have "distinct (map fst ([(''_id'', JOid t)] @ payload))"
      by auto
    from foldl_update_fresh [OF this]
    show p: "with_id (JOid t) payload = (''_id'', JOid t) # payload"
      by (simp add: with_id_def)
    show "AList.delete ''_id'' (with_id (JOid t) payload) = payload"
      using h by (simp add: p)
  }
  {
    assume h: "next_ok (redis_plan w)"
    show "fst (write_behind P payload w) =
        \<lparr>status = 202, body = JObj [(''strategy'', JStr ''write-behind''),
           (''queued'', JBool True),
           (''doc'', JObj (with_id (JOid (oid_gen w (oid_next w))) payload))]\<rparr>"
      using h by (simp add: write_behind_eq setCacheJSON_eq redis_set_eq)
    show "redis (snd (write_behind P payload w)) =
        (redis w)(key (oid_toString (oid_gen w (oid_next w))) \<mapsto>
          (JSON_stringify P (JObj (with_id (JOid (oid_gen w (oid_next w))) payload)), None))"
      using h by (simp add: write_behind_eq setCacheJSON_eq redis_set_eq)
    show "timers (snd (write_behind P payload w)) =
        timers w @ [(oid_gen w (oid_next w), with_id (JOid (oid_gen w (oid_next w))) payload)]"
      using h by (simp add: write_behind_eq setCacheJSON_eq redis_set_eq)
  }
  {
    let ?doc = "with_id (JOid t) payload"
    let ?rest = "AList.delete ''_id'' ?doc"
    let ?x = "oid_gen w (oid_next w)"
    let ?kt = "key (oid_toString t)"
    let ?kx = "key (oid_toString ?x)"
    let ?text = "JSON_stringify P (JObj ((''_id'', JOid ?x) # ?rest))"
    assume h: "fst (flush_try P (t, ?doc) w) = Inr () \<and> ?x \<noteq> t"
    obtain r w1 where ins: "insertOne ?rest w = (r, w1)"
      by fastforce
    from h ins obtain i d where r: "r = Inr (i, d)"
      by (cases r) (auto simp add: flush_try_eq)
    from insertOne_fresh [OF rest_of_with_id(3) ins [unfolded r]]
    have i: "i = JOid ?x" and d: "d = AList.update ''_id'' (JOid ?x) ?rest"
      by simp_all
    have p: "with_id i d = (''_id'', JOid ?x) # ?rest"
      unfolding i d by (rule with_id_persisted [OF rest_of_with_id(1) rest_of_with_id(2)])
    have del: "AList.delete ''_id'' d = ?rest"
      unfolding d by (simp add: delete_update_same delete_idem)
    have kx: "key (id_toString P i) = ?kx"
      by (simp add: i id_toString_def)
    have ne: "?kx \<noteq> ?kt"
      using h by (cases t; cases ?x) (simp add: key_def)
    from h ins r have ok: "next_ok (redis_plan w1)" "next_ok (tl (redis_plan w1))"
      by (auto simp add: flush_try_eq redis_del_eq setCacheJSON_eq redis_set_eq
            split: if_splits)
    have fl: "flush P (t, ?doc) w =
        (elapse (elapse w1))\<lparr>trace := trace w1 @ [Del ?kt, Set ?kx ?text None],
           redis_plan := tl (tl (redis_plan w1)),
           redis := (redis w1)(?kt := None, ?kx \<mapsto> (?text, None)),
           console := console w1 @ [''write-behind persisted: '' @ oid_toString ?x]\<rparr>"
      using ok
      by (simp add: flush_eq flush_try_eq ins r p kx redis_del_eq setCacheJSON_eq redis_set_eq)
        (simp add: i id_toString_def)
    show "readings (flush P (t, ?doc) w) = readings w @ [(''_id'', JOid ?x) # ?rest]"
      using insertOne_Inr [OF ins [unfolded r]] by (simp add: fl del i)
    show "redis (flush P (t, ?doc) w) = (redis w)(?kt := None, ?kx \<mapsto> (?text, None))"
      using insertOne_step [OF ins] by (simp add: fl)
    show "redis (flush P (t, ?doc) w) ?kt = None"
      using ne by (simp add: fl)
  }
qed


lemmas eval_flush = write_behind_eq flush_eq flush_try_eq redis_del_eq eval_insert

theorem write_behind_then_flush_witness:
  "next_ok (redis_plan demo_w) \<and>
   status (fst (write_behind demo_P demo_payload demo_w)) = 202 \<and>
   timers (snd (write_behind demo_P demo_payload demo_w)) =
     [(demo_gen 0, (''_id'', JOid (demo_gen 0)) # demo_payload)] \<and>
   fst (flush_try demo_P (demo_gen 0, with_id (JOid (demo_gen 0)) demo_payload)
     (snd (write_behind demo_P demo_payload demo_w))) = Inr () \<and>
   demo_gen 1 \<noteq> demo_gen 0 \<and>
   readings (flush demo_P (demo_gen 0, with_id (JOid (demo_gen 0)) demo_payload)
     (snd (write_behind demo_P demo_payload demo_w))) =
     [demo_doc, (''_id'', JOid (demo_gen 1)) # demo_payload] \<and>
   redis (flush demo_P (demo_gen 0, with_id (JOid (demo_gen 0)) demo_payload)
     (snd (write_behind demo_P demo_payload demo_w))) (key (oid_toString (demo_gen 0))) = None \<and>
   redis (flush demo_P (demo_gen 0, with_id (JOid (demo_gen 0)) demo_payload)
     (snd (write_behind demo_P demo_payload demo_w))) (key (oid_toString (demo_gen 1))) =
     Some (JSON_stringify demo_P (JObj ((''_id'', JOid (demo_gen 1)) # demo_payload)), None)"
proof -
  let ?w1 = "snd (write_behind demo_P demo_payload demo_w)"
  let ?doc = "with_id (JOid (demo_gen 0)) demo_payload"
  have h: "next_ok (redis_plan demo_w)"
    by (simp add: demo_w_def next_ok_def)
  have g: "oid_gen demo_w (oid_next demo_w) = demo_gen 0" "timers demo_w = []"
    by (simp_all add: demo_w_def)
  have g1: "oid_gen ?w1 (oid_next ?w1) = demo_gen 1" "readings ?w1 = [demo_doc]"
    by (simp_all add: eval_flush)
  have n: "demo_gen 1 \<noteq> demo_gen 0"
    by (simp add: demo_gen_def)
  have d: "?doc = (''_id'', JOid (demo_gen 0)) # demo_payload"
    "AList.delete ''_id'' ?doc = demo_payload"
    by (simp_all add: with_id_def demo_payload_def)
  have f: "fst (flush_try demo_P (demo_gen 0, ?doc) ?w1) = Inr ()"
    by (simp add: eval_flush)
  note T = write_behind_then_flush [where P = demo_P and payload = demo_payload]
  from T [where w = demo_w and t = "demo_gen 0"] h
  have a: "status (fst (write_behind demo_P demo_payload demo_w)) = 202 \<and>
      timers ?w1 = [(demo_gen 0, (''_id'', JOid (demo_gen 0)) # demo_payload)]"
    by (simp add: g d)
  from T [where w = ?w1 and t = "demo_gen 0"] f n
  have b: "readings (flush demo_P (demo_gen 0, ?doc) ?w1) =
        readings ?w1 @ [(''_id'', JOid (oid_gen ?w1 (oid_next ?w1))) # AList.delete ''_id'' ?doc] \<and>
      redis (flush demo_P (demo_gen 0, ?doc) ?w1) =
        (redis ?w1)(key (oid_toString (demo_gen 0)) := None,
          key (oid_toString (oid_gen ?w1 (oid_next ?w1))) \<mapsto>
            (JSON_stringify demo_P (JObj ((''_id'', JOid (oid_gen ?w1 (oid_next ?w1))) #
               AList.delete ''_id'' ?doc)), None)) \<and>
      redis (flush demo_P (demo_gen 0, ?doc) ?w1) (key (oid_toString (demo_gen 0))) = None"
    by (simp only: g1) blast
  have ne: "key (oid_toString (demo_gen 1)) \<noteq> key (oid_toString (demo_gen 0))"
    by (simp add: key_def demo_gen_def)
  from b have c: "readings (flush demo_P (demo_gen 0, ?doc) ?w1) =
        [demo_doc, (''_id'', JOid (demo_gen 1)) # demo_payload] \<and>
      redis (flush demo_P (demo_gen 0, ?doc) ?w1) (key (oid_toString (demo_gen 0))) = None \<and>
      redis (flush demo_P (demo_gen 0, ?doc) ?w1) (key (oid_toString (demo_gen 1))) =
        Some (JSON_stringify demo_P (JObj ((''_id'', JOid (demo_gen 1)) # demo_payload)), None)"
    using ne by (simp only: g1 d(2)) simp
  from h a f n c show ?thesis
    by blast
qed

text \<open>
  Where identifiers come from. The read routes and the cache leave the collection and the
  generator alone; an insert takes the next identifier of the generator unless its
  document brings one. So along a run the generator only moves forward, the collection
  only grows, and every ObjectId under which a reading is stored was generated during the
  run, request bodies carrying none.
\<close>

lemma redis_ttl_step:
  "redis_ttl k w = (r, w1) \<Longrightarrow>
     readings w1 = readings w \<and> oid_gen w1 = oid_gen w \<and> oid_next w1 = oid_next w"
  by (auto simp add: redis_ttl_eq)

lemma redis_del_step:
  "redis_del k w = (r, w1) \<Longrightarrow>
     readings w1 = readings w \<and> oid_gen w1 = oid_gen w \<and> oid_next w1 = oid_next w"
  by (auto simp add: redis_del_eq split: if_splits)

lemma cache_aside_keeps:
  "readings (snd (cache_aside P i w)) = readings w \<and>
   oid_gen (snd (cache_aside P i w)) = oid_gen w \<and>
   oid_next (snd (cache_aside P i w)) = oid_next w"
  by (auto simp add: cache_aside_eq split: prod.splits sum.splits
        dest!: getCacheJSON_step getFromMongo_step setCacheJSON_step)

lemma read_through_keeps:
  "readings (snd (read_through P i w)) = readings w \<and>
   oid_gen (snd (read_through P i w)) = oid_gen w \<and>
   oid_next (snd (read_through P i w)) = oid_next w"
  by (auto simp add: read_through_eq split: prod.splits sum.splits
        dest!: getCacheJSON_step getFromMongo_step setCacheJSON_step)

lemma ttl_read_keeps:
  "readings (snd (ttl_read P ttl i w)) = readings w \<and>
   oid_gen (snd (ttl_read P ttl i w)) = oid_gen w \<and>
   oid_next (snd (ttl_read P ttl i w)) = oid_next w"
  by (auto simp add: ttl_read_eq split: prod.splits sum.splits if_splits
        dest!: getCacheJSON_step getFromMongo_step setCacheJSON_step redis_ttl_step)

lemma write_behind_keeps:
  "readings (snd (write_behind P payload w)) = readings w \<and>
   oid_gen (snd (write_behind P payload w)) = oid_gen w \<and>
   oid_next (snd (write_behind P payload w)) = Suc (oid_next w)"
  by (auto simp add: write_behind_eq split: prod.splits sum.splits
        dest!: setCacheJSON_step)

lemma insertOne_ids:
  assumes "insertOne d w = (r, w1)" and "\<forall>x. map_of d ''_id'' \<noteq> Some (JOid x)"
  shows "oid_gen w1 = oid_gen w \<and> oid_next w \<le> oid_next w1 \<and>
    (\<exists>new. readings w1 = readings w @ new \<and>
       (\<forall>r \<in> set new. \<forall>x. map_of r ''_id'' = Some (JOid x) \<longrightarrow>
          (\<exists>m. oid_next w \<le> m \<and> m < oid_next w1 \<and> x = oid_gen w m)))"
  using assms
  by (auto simp add: insertOne_def prepare_def new_ObjectId_def await_def resolve_def
        mongo_roundtrip_eq split: option.splits if_splits)

lemma step_ids:
  assumes "\<forall>p. e = WriteThrough p \<longrightarrow> (\<forall>x. map_of p ''_id'' \<noteq> Some (JOid x))"
  shows "oid_gen (step P w e) = oid_gen w \<and> oid_next w \<le> oid_next (step P w e) \<and>
    (\<exists>new. readings (step P w e) = readings w @ new \<and>
       (\<forall>r \<in> set new. \<forall>x. map_of r ''_id'' = Some (JOid x) \<longrightarrow>
          (\<exists>m. oid_next w \<le> m \<and> m < oid_next (step P w e) \<and> x = oid_gen w m)))"
proof (cases e)
  case (CacheAside i)
  then show ?thesis
    by (simp add: cache_aside_keeps)
next
  case (ReadThrough i)
  then show ?thesis
    by (simp add: read_through_keeps)
next
  case (TtlRead ttl i)
  then show ?thesis
    by (simp add: ttl_read_keeps)
next
  case (WriteBehind payload)
  then show ?thesis
    by (simp add: write_behind_keeps)
next
  case (WriteThrough payload)
  obtain r w1 where ins: "insertOne payload w = (r, w1)"
    by fastforce
  from assms WriteThrough have "\<forall>x. map_of payload ''_id'' \<noteq> Some (JOid x)"
    by simp
  note ids = insertOne_ids [OF ins this]
  have "readings (snd (write_through P payload w)) = readings w1 \<and>
      oid_gen (snd (write_through P payload w)) = oid_gen w1 \<and>
      oid_next (snd (write_through P payload w)) = oid_next w1"
    by (auto simp add: write_through_eq ins split: prod.splits sum.splits
          dest!: setCacheJSON_step)
  with ids WriteThrough show ?thesis
    by simp
next
  case Timer
  show ?thesis
  proof (cases "timers w")
    case Nil
    with Timer show ?thesis
      by (simp add: run_timer_def)
  next
    case (Cons t ts)
    obtain tempId doc where t: "t = (tempId, doc)"
      by (cases t)
    obtain r w1 where ins: "insertOne (AList.delete ''_id'' doc) (w\<lparr>timers := ts\<rparr>) = (r, w1)"
      by fastforce
    have "\<forall>x. map_of (AList.delete ''_id'' doc) ''_id'' \<noteq> Some (JOid x)"
      by (simp add: delete_notin_dom map_of_eq_None_iff [THEN iffD2])
    note ids = insertOne_ids [OF ins this]
    have "readings (flush P (tempId, doc) (w\<lparr>timers := ts\<rparr>)) = readings w1 \<and>
      oid_gen (flush P (tempId, doc) (w\<lparr>timers := ts\<rparr>)) = oid_gen w1 \<and>
      oid_next (flush P (tempId, doc) (w\<lparr>timers := ts\<rparr>)) = oid_next w1"
      by (auto simp add: flush_eq flush_try_eq ins split: prod.splits sum.splits
            dest!: setCacheJSON_step redis_del_step)
    with ids Timer Cons t show ?thesis
      by (simp add: run_timer_def)
  qed
qed

lemma run_ids:
  assumes "\<forall>p. WriteThrough p \<in> set evs \<longrightarrow> (\<forall>x. map_of p ''_id'' \<noteq> Some (JOid x))"
  shows "oid_gen (run P evs w) = oid_gen w \<and> oid_next w \<le> oid_next (run P evs w) \<and>
    (\<exists>new. readings (run P evs w) = readings w @ new \<and>
       (\<forall>r \<in> set new. \<forall>x. map_of r ''_id'' = Some (JOid x) \<longrightarrow>
          (\<exists>m. oid_next w \<le> m \<and> m < oid_next (run P evs w) \<and> x = oid_gen w m)))"
  using assms
proof (induction evs arbitrary: w)
  case Nil
  then show ?case
    by (simp add: run_def)
next
  case (Cons e evs)
  let ?w1 = "step P w e"
  have r: "run P (e # evs) w = run P evs ?w1"
    by (simp add: run_def)
  from Cons.prems have "\<forall>p. e = WriteThrough p \<longrightarrow> (\<forall>x. map_of p ''_id'' \<noteq> Some (JOid x))"
    by auto
  from step_ids [OF this, of P w] obtain new1 where
    a: "oid_gen ?w1 = oid_gen w" "oid_next w \<le> oid_next ?w1"
      "readings ?w1 = readings w @ new1"
      "\<forall>r \<in> set new1. \<forall>x. map_of r ''_id'' = Some (JOid x) \<longrightarrow>
          (\<exists>m. oid_next w \<le> m \<and> m < oid_next ?w1 \<and> x = oid_gen w m)"
    by blast
  from Cons.prems have "\<forall>p. WriteThrough p \<in> set evs \<longrightarrow> (\<forall>x. map_of p ''_id'' \<noteq> Some (JOid x))"
    by auto
  from Cons.IH [OF this, of ?w1] obtain new2 where
    b: "oid_gen (run P evs ?w1) = oid_gen ?w1" "oid_next ?w1 \<le> oid_next (run P evs ?w1)"
      "readings (run P evs ?w1) = readings ?w1 @ new2"
      "\<forall>r \<in> set new2. \<forall>x. map_of r ''_id'' = Some (JOid x) \<longrightarrow>
          (\<exists>m. oid_next ?w1 \<le> m \<and> m < oid_next (run P evs ?w1) \<and> x = oid_gen ?w1 m)"
    by blast
  have "\<forall>r \<in> set (new1 @ new2). \<forall>x. map_of r ''_id'' = Some (JOid x) \<longrightarrow>
      (\<exists>m. oid_next w \<le> m \<and> m < oid_next (run P evs ?w1) \<and> x = oid_gen w m)"
  proof (intro ballI allI impI)
    fix r x
    assume r: "r \<in> set (new1 @ new2)" and x: "map_of r ''_id'' = Some (JOid x)"
    show "\<exists>m. oid_next w \<le> m \<and> m < oid_next (run P evs ?w1) \<and> x = oid_gen w m"
    proof (cases "r \<in> set new1")
      case True
      with a(4) x obtain m where "oid_next w \<le> m" "m < oid_next ?w1" "x = oid_gen w m"
        by blast
      with b(2) show ?thesis
        by (intro exI [of _ m]) simp
    next
      case False
      with r have "r \<in> set new2"
        by simp
      with b(4) x obtain m where "oid_next ?w1 \<le> m" "m < oid_next (run P evs ?w1)"
          "x = oid_gen ?w1 m"
        by blast
      with a(1) a(2) show ?thesis
        by (intro exI [of _ m]) simp
    qed
  qed
  with a b show ?case
    unfolding r by (intro conjI exI [of _ "new1 @ new2"]) simp_all
qed

text \<open>
  C6, as the code has it. The provisional identifier of a write-behind call is the next
  value of the process's \<^verbatim>\<open>new ObjectId()\<close>. The identifier of a reading inserted
  without \<^verbatim>\<open>_id\<close> is the next value of the same generator, wrapped in nothing: the two
  kinds of identifier have one type and one source. What keeps them apart is that the
  generator does not repeat itself: when it hands out the provisional value only once and
  no request body carries an ObjectId (a JSON body cannot), no reading that the process
  stores in any run after the call has the provisional identifier as its \<^verbatim>\<open>_id\<close>, and
  none that it has stored in the run before the call has it either.
\<close>

theorem provisional_id_from_shared_generator:
  "(next_ok (redis_plan w) \<longrightarrow>
      map fst (timers (snd (write_behind P payload w))) =
        map fst (timers w) @ [oid_gen w (oid_next w)] \<and>
      new_calls w (snd (write_behind P payload w)) =
        [Set (key (oid_toString (oid_gen w (oid_next w))))
           (JSON_stringify P (JObj (with_id (JOid (oid_gen w (oid_next w))) payload))) None]) \<and>
   (map_of d ''_id'' = None \<and> insertOne d w = (Inr (i, d'), w1) \<longrightarrow>
      i = JOid (oid_gen w (oid_next w))) \<and>
   ((\<forall>m. m \<noteq> oid_next w \<longrightarrow> oid_gen w m \<noteq> oid_gen w (oid_next w)) \<and>
    (\<forall>p. WriteThrough p \<in> set evs \<longrightarrow> (\<forall>x. map_of p ''_id'' \<noteq> Some (JOid x))) \<longrightarrow>
      (\<forall>r \<in> set (stored_since w (run P evs (snd (write_behind P payload w)))).
         map_of r ''_id'' \<noteq> Some (JOid (oid_gen w (oid_next w))))) \<and>
   (w = run P evs0 w0 \<and>
    (\<forall>m. m \<noteq> oid_next w \<longrightarrow> oid_gen w m \<noteq> oid_gen w (oid_next w)) \<and>
    (\<forall>p. WriteThrough p \<in> set evs0 \<longrightarrow> (\<forall>x. map_of p ''_id'' \<noteq> Some (JOid x))) \<longrightarrow>
      (\<forall>r \<in> set (stored_since w0 w).
         map_of r ''_id'' \<noteq> Some (JOid (oid_gen w (oid_next w)))))"
proof (intro conjI impI)
  {
    assume h: "next_ok (redis_plan w)"
    show "map fst (timers (snd (write_behind P payload w))) =
        map fst (timers w) @ [oid_gen w (oid_next w)]"
      using h by (simp add: write_behind_eq setCacheJSON_eq redis_set_eq)
    show "new_calls w (snd (write_behind P payload w)) =
        [Set (key (oid_toString (oid_gen w (oid_next w))))
           (JSON_stringify P (JObj (with_id (JOid (oid_gen w (oid_next w))) payload))) None]"
      using h by (simp add: write_behind_eq setCacheJSON_eq redis_set_eq new_calls_def)
  }
  {
    assume "map_of d ''_id'' = None \<and> insertOne d w = (Inr (i, d'), w1)"
    then show "i = JOid (oid_gen w (oid_next w))"
      using insertOne_fresh [of d w i d' w1] by simp
  }
  {
    let ?w1 = "snd (write_behind P payload w)"
    assume h: "(\<forall>m. m \<noteq> oid_next w \<longrightarrow> oid_gen w m \<noteq> oid_gen w (oid_next w)) \<and>
      (\<forall>p. WriteThrough p \<in> set evs \<longrightarrow> (\<forall>x. map_of p ''_id'' \<noteq> Some (JOid x)))"
    then have "\<forall>p. WriteThrough p \<in> set evs \<longrightarrow> (\<forall>x. map_of p ''_id'' \<noteq> Some (JOid x))"
      by simp
    from run_ids [OF this, of P ?w1] obtain new where
      n: "readings (run P evs ?w1) = readings ?w1 @ new"
        "\<forall>r \<in> set new. \<forall>x. map_of r ''_id'' = Some (JOid x) \<longrightarrow>
          (\<exists>m. oid_next ?w1 \<le> m \<and> m < oid_next (run P evs ?w1) \<and> x = oid_gen ?w1 m)"
      by blast
    have s: "stored_since w (run P evs ?w1) = new"
      by (simp add: stored_since_def n(1) write_behind_keeps)
    show "\<forall>r \<in> set (stored_since w (run P evs ?w1)).
        map_of r ''_id'' \<noteq> Some (JOid (oid_gen w (oid_next w)))"
      unfolding s
    proof (intro ballI notI)
      fix r
      assume "r \<in> set new" and "map_of r ''_id'' = Some (JOid (oid_gen w (oid_next w)))"
      with n(2) obtain m where "oid_next ?w1 \<le> m" "oid_gen w (oid_next w) = oid_gen ?w1 m"
        by blast
      then have "m \<noteq> oid_next w" "oid_gen w m = oid_gen w (oid_next w)"
        by (simp_all add: write_behind_keeps)
      with h show False
        by blast
    qed
  }
  {
    assume h: "w = run P evs0 w0 \<and>
      (\<forall>m. m \<noteq> oid_next w \<longrightarrow> oid_gen w m \<noteq> oid_gen w (oid_next w)) \<and>
      (\<forall>p. WriteThrough p \<in> set evs0 \<longrightarrow> (\<forall>x. map_of p ''_id'' \<noteq> Some (JOid x)))"
    then have "\<forall>p. WriteThrough p \<in> set evs0 \<longrightarrow> (\<forall>x. map_of p ''_id'' \<noteq> Some (JOid x))"
      by simp
    from run_ids [OF this, of P w0] h obtain new where
      n: "oid_gen w = oid_gen w0" "readings w = readings w0 @ new"
        "\<forall>r \<in> set new. \<forall>x. map_of r ''_id'' = Some (JOid x) \<longrightarrow>
          (\<exists>m. oid_next w0 \<le> m \<and> m < oid_next w \<and> x = oid_gen w0 m)"
      by blast
    have s: "stored_since w0 w = new"
      by (simp add: stored_since_def n(2))
    show "\<forall>r \<in> set (stored_since w0 w).
        map_of r ''_id'' \<noteq> Some (JOid (oid_gen w (oid_next w)))"
      unfolding s
    proof (intro ballI notI)
      fix r
      assume "r \<in> set new" and "map_of r ''_id'' = Some (JOid (oid_gen w (oid_next w)))"
      with n(3) obtain m where "m < oid_next w" "oid_gen w (oid_next w) = oid_gen w0 m"
        by blast
      then have "m \<noteq> oid_next w" "oid_gen w m = oid_gen w (oid_next w)"
        by (simp_all add: n(1))
      with h show False
        by blast
    qed
  }
qed

theorem provisional_id_from_shared_generator_witness:
  "next_ok (redis_plan demo_w) \<and>
   map fst (timers (snd (write_behind demo_P demo_payload demo_w))) = [demo_gen 0] \<and>
   map_of demo_payload ''_id'' = None \<and>
   insertOne demo_payload demo_w =
     (Inr (JOid (demo_gen 0), demo_payload @ [(''_id'', JOid (demo_gen 0))]),
      snd (insertOne demo_payload demo_w)) \<and>
   JOid (demo_gen 0) = JOid (oid_gen demo_w (oid_next demo_w)) \<and>
   stored_since demo_w (run demo_P [Timer] (snd (write_behind demo_P demo_payload demo_w))) =
     [(''_id'', JOid (demo_gen 1)) # demo_payload] \<and>
   map_of ((''_id'', JOid (demo_gen 1)) # demo_payload) ''_id'' \<noteq> Some (JOid (demo_gen 0)) \<and>
   stored_since demo_w (run demo_P [WriteThrough demo_payload] demo_w) =
     [(''_id'', JOid (demo_gen 0)) # demo_payload] \<and>
   oid_gen (run demo_P [WriteThrough demo_payload] demo_w)
     (oid_next (run demo_P [WriteThrough demo_payload] demo_w)) = demo_gen 1 \<and>
   map_of ((''_id'', JOid (demo_gen 0)) # demo_payload) ''_id'' \<noteq> Some (JOid (demo_gen 1))"
proof -
  let ?w1 = "snd (write_behind demo_P demo_payload demo_w)"
  let ?w2 = "run demo_P [WriteThrough demo_payload] demo_w"
  have h: "next_ok (redis_plan demo_w)"
    by (simp add: demo_w_def next_ok_def)
  have g: "oid_gen demo_w (oid_next demo_w) = demo_gen 0" "timers demo_w = []"
    by (simp_all add: demo_w_def)
  have m: "map_of demo_payload ''_id'' = None"
    by (simp add: demo_payload_def)
  have c: "insertOne demo_payload demo_w =
      (Inr (JOid (demo_gen 0), demo_payload @ [(''_id'', JOid (demo_gen 0))]),
       snd (insertOne demo_payload demo_w))"
    by (intro pairI) (simp_all add: eval_insert)
  have u0: "\<forall>m. m \<noteq> oid_next demo_w \<longrightarrow> oid_gen demo_w m \<noteq> oid_gen demo_w (oid_next demo_w)"
    by (simp add: demo_w_def demo_gen_def)
  have j0: "\<forall>p. WriteThrough p \<in> set [Timer] \<longrightarrow> (\<forall>x. map_of p ''_id'' \<noteq> Some (JOid x))"
    by simp
  have s1: "stored_since demo_w (run demo_P [Timer] ?w1) =
      [(''_id'', JOid (demo_gen 1)) # demo_payload]"
    by (simp add: stored_since_def run_def run_timer_def eval_flush)
  have g2: "oid_gen ?w2 (oid_next ?w2) = demo_gen 1"
    by (simp add: run_def write_through_eq eval_flush)
  have u2: "\<forall>m. m \<noteq> oid_next ?w2 \<longrightarrow> oid_gen ?w2 m \<noteq> oid_gen ?w2 (oid_next ?w2)"
    by (simp add: run_def write_through_eq eval_flush demo_gen_def)
  have j2: "\<forall>p. WriteThrough p \<in> set [WriteThrough demo_payload] \<longrightarrow>
      (\<forall>x. map_of p ''_id'' \<noteq> Some (JOid x))"
    by (simp add: demo_payload_def)
  have s2: "stored_since demo_w ?w2 = [(''_id'', JOid (demo_gen 0)) # demo_payload]"
    by (simp add: stored_since_def run_def write_through_eq eval_flush)
  note T = provisional_id_from_shared_generator [where w = demo_w and P = demo_P
      and payload = demo_payload and d = demo_payload and i = "JOid (demo_gen 0)"
      and d' = "demo_payload @ [(''_id'', JOid (demo_gen 0))]"
      and ?w1.0 = "snd (insertOne demo_payload demo_w)" and evs = "[Timer]"]
  note T2 = provisional_id_from_shared_generator [where w = ?w2 and P = demo_P
      and ?w0.0 = demo_w and evs0 = "[WriteThrough demo_payload]"]
  from T h have a: "map fst (timers ?w1) =
      map fst (timers demo_w) @ [oid_gen demo_w (oid_next demo_w)]"
    by blast
  from T m c have b: "JOid (demo_gen 0) = JOid (oid_gen demo_w (oid_next demo_w))"
    by blast
  from T u0 j0 have "\<forall>r \<in> set (stored_since demo_w (run demo_P [Timer] ?w1)).
      map_of r ''_id'' \<noteq> Some (JOid (oid_gen demo_w (oid_next demo_w)))"
    by blast
  then have d1: "map_of ((''_id'', JOid (demo_gen 1)) # demo_payload) ''_id'' \<noteq>
      Some (JOid (demo_gen 0))"
    unfolding s1 g(1) by simp
  from T2 u2 j2 have "\<forall>r \<in> set (stored_since demo_w ?w2).
      map_of r ''_id'' \<noteq> Some (JOid (oid_gen ?w2 (oid_next ?w2)))"
    by blast
  then have d2: "map_of ((''_id'', JOid (demo_gen 0)) # demo_payload) ''_id'' \<noteq>
      Some (JOid (demo_gen 1))"
    unfolding s2 g2 by simp
  from a have a': "map fst (timers ?w1) = [demo_gen 0]"
    by (simp add: g)
  from h a' m c b s1 d1 s2 g2 d2 show ?thesis
    by blast
qed

text \<open>
  C6 as stated fails in its second half: the identifier \<^verbatim>\<open>66aa00000000000000000001\<close>
  is the provisional identifier when the process, in this state, serves a write-behind
  call, and the identifier under which the collection stores the reading when it serves
  a write-through call instead. A range or a tag is a property of the identifier alone,
  and this one is of both kinds: nothing in it tells which of the two it is.
\<close>

theorem provisional_id_shared_with_store:
  "map fst (timers (snd (write_behind demo_P demo_payload demo_w))) =
     [ObjectId ''66aa00000000000000000001''] \<and>
   (''_id'', JOid (ObjectId ''66aa00000000000000000001'')) # demo_payload
     \<in> set (readings (snd (write_through demo_P demo_payload demo_w)))"
  by (simp add: write_through_eq eval_flush)

end
